theory Spec2Isabelle
  imports Main "HOL-Library.Word" "HOL-Library.FSet" "HOL-Library.Monad_Syntax"
begin

unbundle bit_operations_syntax

section \<open>Common data\<close>

text \<open>
  Go's \<open>byte\<close> is an 8-bit word and \<open>[]byte\<close> a list of them. A Go \<open>string\<close> is a
  sequence of bytes as well; it is modelled by \<open>string\<close> (Isabelle characters are bytes),
  and the conversions \<open>[]byte(s)\<close> and \<open>string(b)\<close> are written out.
\<close>

type_synonym byte = "8 word"
type_synonym bytes = "byte list"

definition bytes_of_string :: "string \<Rightarrow> bytes" where
  "bytes_of_string s = map (\<lambda>c. of_nat (of_char c)) s"

definition string_of_bytes :: "bytes \<Rightarrow> string" where
  "string_of_bytes b = map (\<lambda>w. char_of (unat w)) b"

text \<open>
  A Go function either returns or panics (index or slice bounds out of range, integer
  division by zero). A panic is a result of its own, not an \<open>error\<close> value: a
  function that can panic has an \<open>outcome\<close>, and \<open>do\<close> blocks stop at the first panic.
\<close>

type_synonym 'a outcome = "'a option"

abbreviation Returns :: "'a \<Rightarrow> 'a outcome" where
  "Returns \<equiv> Some"

abbreviation Panics :: "'a outcome" where
  "Panics \<equiv> None"

text \<open>The index expression \<open>a[i]\<close>: it panics unless \<open>i < len(a)\<close>.\<close>

definition index :: "'a list \<Rightarrow> nat \<Rightarrow> 'a outcome" where
  "index a i = (if i < length a then Returns (a ! i) else Panics)"

text \<open>
  The slice expression \<open>a[lo:hi]\<close> on a slice whose capacity equals its length: it
  panics unless \<open>lo \<le> hi \<le> len(a)\<close>.
\<close>

definition slice :: "'a list \<Rightarrow> nat \<Rightarrow> nat \<Rightarrow> 'a list outcome" where
  "slice a lo hi = (if lo \<le> hi \<and> hi \<le> length a then Returns (take (hi - lo) (drop lo a)) else Panics)"

text \<open>The slice expression \<open>a[lo:]\<close>: it panics unless \<open>lo \<le> len(a)\<close>.\<close>

definition slice_from :: "'a list \<Rightarrow> nat \<Rightarrow> 'a list outcome" where
  "slice_from a lo = (if lo \<le> length a then Returns (drop lo a) else Panics)"

section \<open>router/default.go: the recent buffer\<close>

definition recentBufferSize :: nat where "recentBufferSize = 8"
definition cacheSize :: nat where "cacheSize = 256"
definition entriesPerTable :: nat where "entriesPerTable = cacheSize div recentBufferSize"
definition nonceSize :: nat where "nonceSize = 32"

text \<open>
  \<open>recentPage\<close> is \<open>map[[nonceSize]byte]bool\<close>. The code only ever stores \<open>true\<close> and
  only ever asks whether a key is present, so a page is the finite set of its keys and
  \<open>len(page)\<close> is the number of keys.
\<close>

type_synonym recentPage = "bytes fset"

text \<open>
  The array \<open>[recentBufferSize]recentPage\<close> is a function of the index; every access
  checks the index against \<open>recentBufferSize\<close> as Go does. The lock is not modelled:
  calls are taken one after the other.
\<close>

record recentBuffer =
  recentPageIdx :: nat
  recentBuffer :: "nat \<Rightarrow> recentPage"

definition newRecentBuffer :: recentBuffer where
  "newRecentBuffer = \<lparr>recentPageIdx = 0, recentBuffer = (\<lambda>i. {||})\<rparr>"

definition hasMsgBeenSeen :: "('z recentBuffer_scheme) \<Rightarrow> bytes \<Rightarrow> bool" where
  "hasMsgBeenSeen r nonce = list_ex (\<lambda>i. nonce |\<in>| recentBuffer r i) [0..<recentBufferSize]"

definition resetRecentPageIfFull ::
  "('z recentBuffer_scheme) \<Rightarrow> nat \<Rightarrow> (bool \<times> 'z recentBuffer_scheme) outcome" where
  "resetRecentPageIfFull r idx =
     (if recentBufferSize \<le> idx then Panics
      else let isFull = (entriesPerTable \<le> fcard (recentBuffer r idx)) in
        Returns (isFull,
                 if isFull then r\<lparr>recentBuffer := (recentBuffer r)(idx := {||})\<rparr> else r))"

definition setMsgSeen ::
  "('z recentBuffer_scheme) \<Rightarrow> nat \<Rightarrow> bytes \<Rightarrow> ('z recentBuffer_scheme) outcome" where
  "setMsgSeen r idx nonce =
     (if recentBufferSize \<le> idx then Panics
      else Returns (r\<lparr>recentBuffer := (recentBuffer r)(idx := finsert nonce (recentBuffer r idx))\<rparr>))"

text \<open>
  \<open>seenRecently\<close>: the nonce is copied into a \<open>[nonceSize]byte\<close> value
  (\<open>nonce[:nonceSize]\<close> panics on a shorter slice); \<open>seen\<close> is computed first, then the
  page at the current index is reset if it is full and the index moves on, then the
  nonce is stored at the (new) index when it had not been seen.
\<close>

definition seenRecently ::
  "('z recentBuffer_scheme) \<Rightarrow> bytes \<Rightarrow> (bool \<times> 'z recentBuffer_scheme) outcome" where
  "seenRecently r nonce = do {
     nonceVal \<leftarrow> slice nonce 0 nonceSize;
     let seen = hasMsgBeenSeen r nonceVal;
     let idx = recentPageIdx r;
     (reset, r1) \<leftarrow> resetRecentPageIfFull r idx;
     (r2, idx2) \<leftarrow> Returns
        (if reset then
           (if idx < recentBufferSize - 1
            then (r1\<lparr>recentPageIdx := recentPageIdx r1 + 1\<rparr>, idx + 1)
            else (r1\<lparr>recentPageIdx := 0\<rparr>, 0))
         else (r1, idx));
     if \<not> seen then do {
       r3 \<leftarrow> setMsgSeen r2 idx2 nonceVal;
       Returns (seen, r3)
     } else Returns (seen, r2)
   }"

text \<open>A run of calls, one after the other, with the answers in order.\<close>

fun seenRecentlyAll ::
  "('z recentBuffer_scheme) \<Rightarrow> bytes list \<Rightarrow> (bool list \<times> 'z recentBuffer_scheme) outcome" where
  "seenRecentlyAll r [] = Returns ([], r)"
| "seenRecentlyAll r (n # ns) = do {
     (b, r') \<leftarrow> seenRecently r n;
     (bs, r'') \<leftarrow> seenRecentlyAll r' ns;
     Returns (b # bs, r'')
   }"

section \<open>router/default.go: the default router\<close>

text \<open>
  Modelled from the spec: the types \<open>api.Patch\<close>, \<open>api.Channel\<close> and \<open>api.Profile\<close>
  are declared outside the files at hand; the records hold the fields the spec's data
  model lists (keys in their base64 form).
\<close>

record Patch =
  From :: string
  To :: "string list"

record Channel =
  Name :: string
  Pubkey :: string

record Profile =
  Name :: string
  Enabled :: bool
  Pubkey :: string

text \<open>
  \<open>DefaultRouter\<close> embeds the recent buffer and adds the patches and the nine
  settings.
\<close>

record DefaultRouter = recentBuffer +
  Patches :: "Patch list"
  CheckContent :: bool
  CheckChannels :: bool
  CheckProfiles :: bool
  ForwardConsumedContent :: bool
  ForwardConsumedChannels :: bool
  ForwardConsumedProfiles :: bool
  ForwardUnknownContent :: bool
  ForwardUnknownChannels :: bool
  ForwardUnknownProfiles :: bool

definition NewDefaultRouter :: DefaultRouter where
  "NewDefaultRouter =
     \<lparr>recentPageIdx = recentPageIdx newRecentBuffer,
      recentBuffer = recentBuffer newRecentBuffer,
      Patches = [],
      CheckContent = True,
      CheckChannels = True,
      CheckProfiles = False,
      ForwardConsumedContent = False,
      ForwardConsumedChannels = True,
      ForwardConsumedProfiles = False,
      ForwardUnknownContent = True,
      ForwardUnknownChannels = True,
      ForwardUnknownProfiles = False\<rparr>"

text \<open>
  The part of the interface \<open>api.Node\<close> that \<open>Route\<close> calls, over a node state \<open>'n\<close>
  with errors \<open>'e\<close>. A Go result \<open>(v, err)\<close> is a pair whose second component is \<open>None\<close>
  for \<open>nil\<close>. \<open>Handle\<close> and \<open>Forward\<close> change the node; the other three only read it.
\<close>

record ('n, 'e) Node =
  CID :: "'n \<Rightarrow> string \<times> 'e option"
  GetChannel :: "'n \<Rightarrow> string \<Rightarrow> Channel option \<times> 'e option"
  GetProfiles :: "'n \<Rightarrow> Profile list \<times> 'e option"
  Handle :: "'n \<Rightarrow> string \<Rightarrow> bytes \<Rightarrow> (bool \<times> 'e option) \<times> 'n"
  Forward :: "'n \<Rightarrow> string \<Rightarrow> bytes \<Rightarrow> 'e option \<times> 'n"

text \<open>
  The calls \<open>Route\<close> makes on the node that have an effect, recorded in the order they
  are made.
\<close>

datatype call = HandleCall string bytes | ForwardCall string bytes

text \<open>
  An error \<open>Route\<close> returns is either its own \<open>errors.New("Incorrect channel name
  length")\<close> or an error a node method returned, handed on unchanged.
\<close>

datatype 'e route_error = Incorrect_channel_name_length | NodeError 'e

text \<open>The inner loop of \<open>forward\<close> over \<open>p.To\<close>: it stops at the first error.\<close>

fun forwardTo ::
  "('n, 'e) Node \<Rightarrow> 'n \<Rightarrow> string list \<Rightarrow> bytes \<Rightarrow> 'e option \<times> 'n \<times> call list" where
  "forwardTo node n [] message = (None, n, [])"
| "forwardTo node n (t # ts) message =
     (case Forward node n t message of
        (Some e, n') \<Rightarrow> (Some e, n', [ForwardCall t message])
      | (None, n') \<Rightarrow>
          (case forwardTo node n' ts message of
             (err, n'', cs) \<Rightarrow> (err, n'', ForwardCall t message # cs)))"

text \<open>\<open>forward\<close>: the first patch whose \<open>From\<close> is the channel name decides.\<close>

definition forward ::
  "DefaultRouter \<Rightarrow> ('n, 'e) Node \<Rightarrow> 'n \<Rightarrow> string \<Rightarrow> bytes \<Rightarrow> 'e option \<times> 'n \<times> call list" where
  "forward r node n channelName message =
     (case find (\<lambda>p. channelName = From p) (Patches r) of
        Some p \<Rightarrow> forwardTo node n (To p) message
      | None \<Rightarrow>
          (case Forward node n channelName message of
             (err, n') \<Rightarrow> (err, n', [ForwardCall channelName message])))"

text \<open>
  The statement \<open>consumed, err = node.Handle(channelName, message[idx:])\<close>, with the
  call recorded.
\<close>

definition handleAt ::
  "('n, 'e) Node \<Rightarrow> 'n \<Rightarrow> string \<Rightarrow> bytes \<Rightarrow> nat \<Rightarrow> (bool \<times> 'e option \<times> 'n \<times> call list) outcome" where
  "handleAt node n channelName message idx = do {
     body \<leftarrow> slice_from message idx;
     case Handle node n channelName body of
       ((consumed, err), n') \<Rightarrow> Returns (consumed, err, n', [HandleCall channelName body])
   }"

text \<open>
  The statement \<open>if (!consumed && unknown) || (consumed && fwdConsumed) { if err :=
  r.forward(node, channelName, message[idx:]); err != nil { return err } }\<close>.
\<close>

definition forwardAt ::
  "DefaultRouter \<Rightarrow> ('n, 'e) Node \<Rightarrow> 'n \<Rightarrow> bool \<Rightarrow> bool \<Rightarrow> bool \<Rightarrow> string \<Rightarrow> bytes \<Rightarrow> nat
     \<Rightarrow> ('e option \<times> 'n \<times> call list) outcome" where
  "forwardAt r node n consumed unknown fwdConsumed channelName message idx =
     (if (\<not> consumed \<and> unknown) \<or> (consumed \<and> fwdConsumed) then do {
        body \<leftarrow> slice_from message idx;
        Returns (forward r node n channelName body)
      } else Returns (None, n, []))"

text \<open>
  The loop over the profiles: disabled ones are skipped, an error of \<open>Handle\<close> ends
  \<open>Route\<close>, the first profile that consumes the message ends the loop.
\<close>

fun handleProfiles ::
  "('n, 'e) Node \<Rightarrow> 'n \<Rightarrow> Profile list \<Rightarrow> string \<Rightarrow> bytes \<Rightarrow> nat
     \<Rightarrow> (bool \<times> 'e option \<times> 'n \<times> call list) outcome" where
  "handleProfiles node n [] channelName message idx = Returns (False, None, n, [])"
| "handleProfiles node n (profile # profiles) channelName message idx =
     (if \<not> Enabled profile then handleProfiles node n profiles channelName message idx
      else do {
        (consumed, err, n', cs) \<leftarrow> handleAt node n channelName message idx;
        if err \<noteq> None then Returns (consumed, err, n', cs)
        else if consumed then Returns (consumed, None, n', cs)
        else do {
          (consumed', err', n'', cs') \<leftarrow> handleProfiles node n' profiles channelName message idx;
          Returns (consumed', err', n'', cs @ cs')
        }
      })"

text \<open>The branch of \<open>Route\<close> for a channel message (\<open>channelLen > 0\<close>).\<close>

definition routeChannel ::
  "DefaultRouter \<Rightarrow> ('n, 'e) Node \<Rightarrow> 'n \<Rightarrow> bytes \<Rightarrow> 16 word \<Rightarrow> 16 word
     \<Rightarrow> ('e option \<times> 'n \<times> call list) outcome" where
  "routeChannel r node n message channelLen idx = do {
     name \<leftarrow> slice message 2 (unat (2 + channelLen));
     let channelName = string_of_bytes name;
     (consumed, err, n1, cs1) \<leftarrow>
       (if CheckChannels r then
          (case GetChannel node n channelName of
             (Some chn, None) \<Rightarrow> handleAt node n channelName message (unat idx)
           | _ \<Rightarrow> Returns (False, None, n, []))
        else Returns (False, None, n, []));
     if err \<noteq> None then Returns (err, n1, cs1)
     else do {
       (err2, n2, cs2) \<leftarrow>
         forwardAt r node n1 consumed (ForwardUnknownChannels r) (ForwardConsumedChannels r)
           channelName message (unat idx);
       Returns (err2, n2, cs1 @ cs2)
     }
   }"

text \<open>
  The branch of \<open>Route\<close> for a private message (zero-length channel name): first the
  content key, then the profile keys.
\<close>

definition routePrivate ::
  "DefaultRouter \<Rightarrow> ('n, 'e) Node \<Rightarrow> 'n \<Rightarrow> bytes \<Rightarrow> 16 word
     \<Rightarrow> ('e option \<times> 'n \<times> call list) outcome" where
  "routePrivate r node n message idx = do {
     let channelName = [];
     (consumed, err, n1, cs1) \<leftarrow>
       (if CheckContent r then handleAt node n channelName message (unat idx)
        else Returns (False, None, n, []));
     if err \<noteq> None then Returns (err, n1, cs1)
     else do {
       (err2, n2, cs2) \<leftarrow>
         forwardAt r node n1 consumed (ForwardUnknownContent r) (ForwardConsumedContent r)
           channelName message (unat idx);
       if err2 \<noteq> None then Returns (err2, n2, cs1 @ cs2)
       else do {
         (consumed3, err3, n3, cs3) \<leftarrow>
           (if CheckProfiles r then
              (case GetProfiles node n2 of
                 (profiles, Some e) \<Rightarrow> Returns (False, Some e, n2, [])
               | (profiles, None) \<Rightarrow> handleProfiles node n2 profiles channelName message (unat idx))
            else Returns (False, None, n2, []));
         if err3 \<noteq> None then Returns (err3, n3, cs1 @ cs2 @ cs3)
         else do {
           (err4, n4, cs4) \<leftarrow>
             forwardAt r node n3 consumed3 (ForwardUnknownProfiles r) (ForwardConsumedProfiles r)
               channelName message (unat idx);
           Returns (err4, n4, cs1 @ cs2 @ cs3 @ cs4)
         }
       }
     }
   }"

text \<open>
  \<open>Route\<close>. \<open>channelLen\<close> and \<open>idx\<close> are \<open>uint16\<close>, so \<open>2 + channelLen\<close> and
  \<open>idx + nonceSize\<close> wrap around at \<open>2^16\<close>; the length check is made in \<open>int\<close> and
  does not wrap. The result is the error (or \<open>nil\<close>), the router and the node as they
  are left, and the calls made on the node.
\<close>

definition Route ::
  "DefaultRouter \<Rightarrow> ('n, 'e) Node \<Rightarrow> 'n \<Rightarrow> bytes
     \<Rightarrow> ('e route_error option \<times> DefaultRouter \<times> 'n \<times> call list) outcome" where
  "Route r node n message = do {
     m0 \<leftarrow> index message 0;
     m1 \<leftarrow> index message 1;
     let channelLen = (push_bit 8 (ucast m0) OR ucast m1 :: 16 word);
     if length message < unat channelLen + 2 + 64
     then Returns (Some Incorrect_channel_name_length, r, n, [])
     else do {
       let idx = 2 + channelLen;
       nonce \<leftarrow> slice message (unat idx) (unat (idx + of_nat nonceSize));
       (seen, r') \<leftarrow> seenRecently r nonce;
       if seen then Returns (None, r', n, [])
       else
         (case CID node n of
            (cid, Some e) \<Rightarrow> Returns (Some (NodeError e), r', n, [])
          | (cid, None) \<Rightarrow> do {
              (err, n', cs) \<leftarrow>
                (if 0 < channelLen then routeChannel r' node n message channelLen idx
                 else routePrivate r' node n message idx);
              Returns (map_option NodeError err, r', n', cs)
            })
     }
   }"

section \<open>The nodes (nodes/qldb and nodes/db)\<close>

text \<open>
  Modelled from the spec: \<open>api.Msg\<close> and \<open>api.Bundle\<close> are declared outside the files at
  hand. \<open>Msg\<close> has the fields the code sets; \<open>Bundle\<close> is \<open>{time: int64, data: bytes}\<close>.
  Timestamps are \<open>int64\<close> and only ever compared, so they are integers.
\<close>

record Msg =
  Name :: string
  Content :: bytes
  IsChan :: bool
  PubKey :: string
  Chunked :: bool
  StreamHeader :: bool

record Bundle =
  Data :: bytes
  Time :: int

text \<open>
  Modelled from the spec: a row of the outbox table, \<open>{channel: string, message: bytes,
  timestamp: int64 (ns)}\<close>, with the column names of the SQL in the code.
\<close>

record OutboxRow =
  channel :: string
  msg :: bytes
  timestamp :: int

text \<open>
  The errors the node's own code creates with \<open>errors.New\<close>, and the errors handed on
  from a collaborator (key pair, gob codec), which carry the collaborator's message.
\<close>

datatype error =
    Dropoff_called_with_no_data
  | Luggage_Tag_Check_Failed_in_Dropoff
  | Invalid_character_in_channel_name
  | Cannot_Handle_message_for_Unknown_Channel
  | Collaborator string

text \<open>
  The collaborators are parameters: the key pairs of package \<open>bc\<close> (a key is named by
  its base64 form; \<open>FromB64\<close> gives the error of reading a key from a string, if any)
  and the gob codec for \<open>[][]byte\<close>. Each returns Go's pair of a value and an error.
\<close>

record Collab =
  DecryptMessage :: "string \<Rightarrow> bytes \<Rightarrow> bool \<times> bytes \<times> string option"
  EncryptMessage :: "string \<Rightarrow> bytes \<Rightarrow> string \<Rightarrow> bytes \<times> string option"
  GetPubKey :: "string \<Rightarrow> string"
  FromB64 :: "string \<Rightarrow> string option"
  gobEncode :: "bytes list \<Rightarrow> bytes \<times> string option"
  gobDecode :: "bytes \<Rightarrow> bytes list \<times> string option"

text \<open>
  The state of a node: its keys, the cache \<open>channelKeys\<close>, its router, the tables
  \<open>channels(name, privkey)\<close>, \<open>profiles\<close> and \<open>outbox(channel, msg, timestamp)\<close> of
  its database, the messages delivered on \<open>Out()\<close> with the room left there, and the
  reading \<open>time.Now().UnixNano()\<close> gives. Debug messages (\<open>debugMode\<close>) are not
  modelled.
\<close>

record NodeState =
  routingKey :: string
  contentKey :: string
  channelKeys :: "string \<rightharpoonup> string"
  router :: DefaultRouter
  channels :: "(string \<times> string) list"
  profiles :: "Profile list"
  outbox :: "OutboxRow list"
  Out :: "Msg list"
  OutRoom :: nat
  clock :: int

subsection \<open>Framing\<close>

text \<open>
  The prefix every sender builds: \<open>t := uint16(len(channelName)); rxsum :=
  []byte{byte(t >> 8), byte(t & 0xFF)}; rxsum = append(rxsum, []byte(channelName)...)\<close>.
\<close>

definition rxsum :: "string \<Rightarrow> bytes" where
  "rxsum channelName =
     (let t = (of_nat (length channelName) :: 16 word)
      in [ucast (drop_bit 8 t), ucast (t AND 0xFF)] @ bytes_of_string channelName)"

text \<open>
  The two-byte big-endian encoding of a length as the spec words it: high byte first.
  Two bytes hold the numbers below \<open>2^16\<close>; a number from \<open>2^16\<close> on has no such
  encoding.
\<close>

definition be16 :: "nat \<Rightarrow> bytes option" where
  "be16 n = (if n < 65536 then Some [of_nat (n div 256), of_nat (n mod 256)] else None)"

text \<open>
  The number the spec reads from the first two bytes of a frame: big-endian, high byte
  first.
\<close>

definition be16_read :: "bytes \<Rightarrow> nat" where
  "be16_read message = 256 * unat (message ! 0) + unat (message ! 1)"

subsection \<open>nodes/qldb/internal.go and nodes/db/internal.go\<close>

text \<open>
  \<open>Forward\<close> of package \<open>qldb\<close>: the framed message is stored unless a row with the
  same channel and message is there already (then \<open>Scan\<close> succeeds and its \<open>nil\<close> is
  returned). A failure of the database itself is not modelled.
\<close>

definition qldb_Forward :: "NodeState \<Rightarrow> string \<Rightarrow> bytes \<Rightarrow> error option \<times> NodeState" where
  "qldb_Forward node channelName message =
     (let message' = rxsum channelName @ message
      in if list_ex (\<lambda>row. channel row = channelName \<and> msg row = message') (outbox node)
         then (None, node)
         else (None, node\<lparr>outbox := outbox node @
                 [\<lparr>channel = channelName, msg = message', timestamp = clock node\<rparr>]\<rparr>))"

text \<open>
  Modelled from the spec: \<open>dbOutboxEnqueue\<close> is not in the files at hand; the spec's
  \<open>enqueue(channel, bytes, ts_ns, dedup: bool)\<close> appends the row, and with \<open>dedup\<close> skips
  a pair of channel and message that is stored already.
\<close>

definition dbOutboxEnqueue ::
  "NodeState \<Rightarrow> string \<Rightarrow> bytes \<Rightarrow> int \<Rightarrow> bool \<Rightarrow> error option \<times> NodeState" where
  "dbOutboxEnqueue node channelName message ts dedup =
     (if dedup \<and> list_ex (\<lambda>row. channel row = channelName \<and> msg row = message) (outbox node)
      then (None, node)
      else (None, node\<lparr>outbox := outbox node @
              [\<lparr>channel = channelName, msg = message, timestamp = ts\<rparr>]\<rparr>))"

text \<open>\<open>Forward\<close> of package \<open>db\<close>.\<close>

definition db_Forward :: "NodeState \<Rightarrow> string \<Rightarrow> bytes \<Rightarrow> error option \<times> NodeState" where
  "db_Forward node channelName message =
     (let message' = rxsum channelName @ message
      in dbOutboxEnqueue node channelName message' (clock node) False)"

text \<open>\<open>send\<close> of package \<open>db\<close>, the path of \<open>Send\<close> and \<open>SendChannel\<close>.\<close>

definition send ::
  "Collab \<Rightarrow> NodeState \<Rightarrow> string \<Rightarrow> string \<Rightarrow> bytes \<Rightarrow> error option \<times> NodeState" where
  "send collab node channelName destkey message =
     (case EncryptMessage collab (contentKey node) message destkey of
        (data, Some e) \<Rightarrow> (Some (Collaborator e), node)
      | (data, None) \<Rightarrow>
          (let data' = rxsum channelName @ data;
               ts = clock node
           in dbOutboxEnqueue node channelName data' ts False))"

text \<open>
  The non-blocking \<open>select\<close> on \<open>node.Out()\<close>: the message is delivered when there is
  room, and dropped otherwise.
\<close>

definition offerOut :: "NodeState \<Rightarrow> Msg \<Rightarrow> NodeState" where
  "offerOut node clearMsg =
     (if 0 < OutRoom node
      then node\<lparr>Out := Out node @ [clearMsg], OutRoom := OutRoom node - 1\<rparr>
      else node)"

text \<open>\<open>Handle\<close>, the same in both packages.\<close>

definition node_Handle ::
  "Collab \<Rightarrow> NodeState \<Rightarrow> string \<Rightarrow> bytes \<Rightarrow> (bool \<times> error option) \<times> NodeState" where
  "node_Handle collab node channelName message =
     (let channelLen = length channelName in
      case (if 0 < channelLen then
              (case channelKeys node channelName of
                 None \<Rightarrow> Inl (False, Some Cannot_Handle_message_for_Unknown_Channel)
               | Some v \<Rightarrow>
                   Inr (\<lparr>Name = channelName, Content = [], IsChan = True, PubKey = [],
                         Chunked = False, StreamHeader = False\<rparr>,
                        DecryptMessage collab v message))
            else
              Inr (\<lparr>Name = ''[content]'', Content = [], IsChan = False, PubKey = [],
                    Chunked = False, StreamHeader = False\<rparr>,
                   DecryptMessage collab (contentKey node) message)) of
        Inl res \<Rightarrow> (res, node)
      | Inr (clearMsg, tagOK, clear, err) \<Rightarrow>
          if \<not> tagOK \<or> err \<noteq> None
          then ((tagOK, map_option Collaborator err), node)
          else ((tagOK, None), offerOut node (clearMsg\<lparr>Content := clear\<rparr>)))"

text \<open>
  Modelled from the spec: the helpers \<open>dbAddChannel\<close>, \<open>dbDeleteChannel\<close> and
  \<open>dbGetChannelPrivs\<close> are not in the files at hand. Channels are uniquely named: the
  store keeps one private key per name, adding a channel stores or replaces its key,
  deleting removes the name, and the listing gives every stored name with its key.
\<close>

definition dbAddChannel :: "NodeState \<Rightarrow> string \<Rightarrow> string \<Rightarrow> error option \<times> NodeState" where
  "dbAddChannel node name privkey =
     (None, node\<lparr>channels := (name, privkey) # filter (\<lambda>c. fst c \<noteq> name) (channels node)\<rparr>)"

definition dbDeleteChannel :: "NodeState \<Rightarrow> string \<Rightarrow> NodeState" where
  "dbDeleteChannel node name = node\<lparr>channels := filter (\<lambda>c. fst c \<noteq> name) (channels node)\<rparr>"

definition dbGetChannelPrivs :: "NodeState \<Rightarrow> (string \<times> string) list \<times> error option" where
  "dbGetChannelPrivs node = (channels node, None)"

text \<open>
  \<open>refreshChannels\<close>: every channel of the store is written into the cache; the error of
  the listing is dropped.
\<close>

definition refreshChannels :: "NodeState \<Rightarrow> NodeState" where
  "refreshChannels node =
     (case dbGetChannelPrivs node of
        (chans, _) \<Rightarrow>
          node\<lparr>channelKeys :=
            foldl (\<lambda>keys element. keys(fst element \<mapsto> snd element)) (channelKeys node) chans\<rparr>)"

subsection \<open>nodes/db/public.go\<close>

definition AddChannel :: "NodeState \<Rightarrow> string \<Rightarrow> string \<Rightarrow> error option \<times> NodeState" where
  "AddChannel node name privkey =
     (case dbAddChannel node name privkey of
        (Some e, node') \<Rightarrow> (Some e, node')
      | (None, node') \<Rightarrow> (None, refreshChannels node'))"

definition DeleteChannel :: "NodeState \<Rightarrow> string \<Rightarrow> error option \<times> NodeState" where
  "DeleteChannel node name = (None, dbDeleteChannel node name)"

text \<open>\<open>CID\<close> of package \<open>db\<close>.\<close>

definition db_CID :: "Collab \<Rightarrow> NodeState \<Rightarrow> string \<times> error option" where
  "db_CID collab node = (GetPubKey collab (contentKey node), None)"

text \<open>
  Modelled from the spec: \<open>dbGetChannelPrivKey\<close> and \<open>dbGetProfiles\<close> are not in the
  files at hand. The first reads the private key stored for a channel name, the empty
  string when there is none (as \<open>GetChannelPrivKey\<close> of package \<open>qldb\<close> does); the second
  lists the profiles.
\<close>

definition dbGetChannelPrivKey :: "NodeState \<Rightarrow> string \<Rightarrow> string \<times> error option" where
  "dbGetChannelPrivKey node name =
     (case map_of (channels node) name of None \<Rightarrow> ([], None) | Some privkey \<Rightarrow> (privkey, None))"

definition dbGetProfiles :: "NodeState \<Rightarrow> Profile list \<times> error option" where
  "dbGetProfiles node = (profiles node, None)"

text \<open>\<open>GetChannel\<close> of package \<open>db\<close>.\<close>

definition db_GetChannel :: "Collab \<Rightarrow> NodeState \<Rightarrow> string \<Rightarrow> Channel option \<times> error option" where
  "db_GetChannel collab node name =
     (case dbGetChannelPrivKey node name of
        (privkey, Some e) \<Rightarrow> (None, Some e)
      | (privkey, None) \<Rightarrow>
          (case FromB64 collab privkey of
             Some e \<Rightarrow> (None, Some (Collaborator e))
           | None \<Rightarrow>
               (Some \<lparr>Channel.Name = name, Channel.Pubkey = GetPubKey collab privkey\<rparr>, None)))"

text \<open>The node of package \<open>db\<close> as an \<open>api.Node\<close>.\<close>

definition db_Node :: "Collab \<Rightarrow> (NodeState, error) Node" where
  "db_Node collab =
     \<lparr>CID = db_CID collab,
      GetChannel = db_GetChannel collab,
      GetProfiles = dbGetProfiles,
      Handle = node_Handle collab,
      Forward = db_Forward\<rparr>"

subsection \<open>nodes/qldb/public.go\<close>

text \<open>
  The loop of \<open>Dropoff\<close> over the decoded messages. A message shorter than 16 bytes is
  skipped; an error of \<open>Route\<close> is logged and the loop goes on. The node is handed to
  \<open>Route\<close> through the interface \<open>api.Node\<close>; the list returned beside the node holds,
  for every message routed, what \<open>Route\<close> returned for it and the calls it made.
\<close>

fun routeEach ::
  "(NodeState, error) Node \<Rightarrow> NodeState \<Rightarrow> bytes list
     \<Rightarrow> (NodeState \<times> (bytes \<times> error route_error option \<times> call list) list) outcome" where
  "routeEach impl node [] = Returns (node, [])"
| "routeEach impl node (m # msgs) =
     (if length m < 16 then routeEach impl node msgs
      else do {
        (err, r', node', cs) \<leftarrow> Route (router node) impl node m;
        (node'', routed) \<leftarrow> routeEach impl (node'\<lparr>router := r'\<rparr>) msgs;
        Returns (node'', (m, err, cs) # routed)
      })"

definition Dropoff ::
  "Collab \<Rightarrow> (NodeState, error) Node \<Rightarrow> NodeState \<Rightarrow> Bundle
     \<Rightarrow> (error option \<times> NodeState \<times> (bytes \<times> error route_error option \<times> call list) list) outcome" where
  "Dropoff collab impl node bundle =
     (if length (Data bundle) < 1 then Returns (Some Dropoff_called_with_no_data, node, [])
      else
        (case DecryptMessage collab (routingKey node) (Data bundle) of
           (tagOK, data, Some e) \<Rightarrow> Returns (Some (Collaborator e), node, [])
         | (tagOK, data, None) \<Rightarrow>
             if \<not> tagOK then Returns (Some Luggage_Tag_Check_Failed_in_Dropoff, node, [])
             else
               (case gobDecode collab data of
                  (msgs, Some e) \<Rightarrow> Returns (Some (Collaborator e), node, [])
                | (msgs, None) \<Rightarrow> do {
                    (node', routed) \<leftarrow> routeEach impl node msgs;
                    Returns (None, node', routed)
                  })))"

definition alphabet :: string where
  "alphabet = ''abcdefghijklmnopqrstuvwxyzABCDEFGHIJKLMNOPQRSTUVWXYZ0987654321''"

text \<open>
  The test \<open>strings.Contains(alphabet, string(char))\<close> for the characters of a name.
  \<open>range\<close> decodes the name as UTF-8: a byte below 128 is a character of its own, and
  every other byte belongs to a character (or is an invalid byte, read as U+FFFD) whose
  string has a byte from 128 on and so is not contained in \<open>alphabet\<close>. Byte by byte
  the test is therefore membership in \<open>alphabet\<close>.
\<close>

definition validName :: "string \<Rightarrow> bool" where
  "validName cname = list_all (\<lambda>char. char \<in> set alphabet) cname"

text \<open>
  The query \<open>Pickup\<close> builds: \<open>SELECT msg, timestamp FROM outbox\<close>, with
  \<open>WHERE lastTime < timestamp\<close> when \<open>lastTime\<close> is not 0, with \<open>channel IN (...)\<close>
  when channel names are given, \<open>ORDER BY timestamp ASC LIMIT 250\<close>.
\<close>

definition pickupQuery :: "NodeState \<Rightarrow> int \<Rightarrow> bool \<Rightarrow> string list \<Rightarrow> OutboxRow list" where
  "pickupQuery node lastTime wildcard channelNames =
     take 250 (sort_key timestamp
       (filter (\<lambda>row. (lastTime = 0 \<or> lastTime < timestamp row) \<and>
                       (wildcard \<or> length channelNames = 0 \<or> channel row \<in> set channelNames))
          (outbox node)))"

text \<open>The loop of \<open>Pickup\<close> over the rows, which keeps the largest timestamp seen.\<close>

definition lastTimeReturned :: "int \<Rightarrow> OutboxRow list \<Rightarrow> int" where
  "lastTimeReturned lastTime rows =
     foldl (\<lambda>t row. if t < timestamp row then timestamp row else t) lastTime rows"

text \<open>
  The part of \<open>Pickup\<close> after the query: the bundle carries the largest timestamp, and
  when there are rows their messages, gob-encoded and encrypted to \<open>rpub\<close>.
\<close>

definition pickupBundle ::
  "Collab \<Rightarrow> NodeState \<Rightarrow> string \<Rightarrow> int \<Rightarrow> OutboxRow list \<Rightarrow> Bundle \<times> error option" where
  "pickupBundle collab node rpub lastTime rows =
     (let msgs = map msg rows;
          retval = \<lparr>Data = [], Time = lastTimeReturned lastTime rows\<rparr>
      in if 0 < length msgs then
           (case gobEncode collab msgs of
              (buf, Some e) \<Rightarrow> (retval, Some (Collaborator e))
            | (buf, None) \<Rightarrow>
                (case EncryptMessage collab (routingKey node) buf rpub of
                   (cipher, Some e) \<Rightarrow> (retval, Some (Collaborator e))
                 | (cipher, None) \<Rightarrow> (retval\<lparr>Data := cipher\<rparr>, None)))
         else (retval, None))"

text \<open>
  \<open>Pickup\<close>: the names are checked when there are any (the zero \<open>Bundle\<close> goes with
  the error), then the query is made and its rows are bundled.
\<close>

definition Pickup ::
  "Collab \<Rightarrow> NodeState \<Rightarrow> string \<Rightarrow> int \<Rightarrow> string list \<Rightarrow> Bundle \<times> error option" where
  "Pickup collab node rpub lastTime channelNames =
     (let retval = \<lparr>Data = [], Time = 0\<rparr>;
          wildcard = (length channelNames < 1)
      in if \<not> wildcard \<and> list_ex (\<lambda>cname. \<not> validName cname) channelNames
         then (retval, Some Invalid_character_in_channel_name)
         else pickupBundle collab node rpub lastTime
                (pickupQuery node lastTime wildcard channelNames))"

text \<open>
  The spec's \<open>[A-Za-z0-9]\<close>: the digits, the capital letters and the small letters of
  ASCII, by their codes.
\<close>

definition alphanumeric :: "char \<Rightarrow> bool" where
  "alphanumeric c =
     (let n = (of_char c :: nat)
      in (48 \<le> n \<and> n \<le> 57) \<or> (65 \<le> n \<and> n \<le> 90) \<or> (97 \<le> n \<and> n \<le> 122))"

section \<open>api/chunking.go\<close>

text \<open>\<open>binary.Write(b, binary.LittleEndian, uint32(v))\<close> appends these four bytes.\<close>

definition le32 :: "32 word \<Rightarrow> bytes" where
  "le32 w = [ucast w, ucast (drop_bit 8 w), ucast (drop_bit 16 w), ucast (drop_bit 24 w)]"

text \<open>
  The message \<open>Msg{Name: msg.Name, Content: b, IsChan: msg.IsChan, PubKey: msg.PubKey,
  Chunked: true, StreamHeader: ...}\<close>.
\<close>

definition chunkMsg :: "Msg \<Rightarrow> bytes \<Rightarrow> bool \<Rightarrow> Msg" where
  "chunkMsg m b header =
     \<lparr>Name = Name m, Content = b, IsChan = IsChan m, PubKey = PubKey m,
      Chunked = True, StreamHeader = header\<rparr>"

text \<open>
  The loop \<open>for i := uint32(0); i < wholeLoops; i++\<close>, from \<open>i\<close> on. \<open>SendMsg\<close> is the
  node's method; the messages handed to it are returned in order beside the error and
  the node. The first error ends the loop.
\<close>

function sendWholeLoops ::
  "('n \<Rightarrow> Msg \<Rightarrow> 'e option \<times> 'n) \<Rightarrow> 'n \<Rightarrow> Msg \<Rightarrow> bytes \<Rightarrow> bytes \<Rightarrow> 32 word \<Rightarrow> 32 word \<Rightarrow> 32 word
     \<Rightarrow> ('e option \<times> 'n \<times> Msg list) outcome" where
  "sendWholeLoops SendMsg node m streamID buf chunkSizeMinusHeader wholeLoops i =
     (if i < wholeLoops then do {
        body \<leftarrow> slice buf (unat (i * chunkSizeMinusHeader))
                         (unat (i * chunkSizeMinusHeader + chunkSizeMinusHeader));
        let c = chunkMsg m (streamID @ le32 i @ body) False;
        case SendMsg node c of
          (Some e, node') \<Rightarrow> Returns (Some e, node', [c])
        | (None, node') \<Rightarrow> do {
            (err, node'', cs) \<leftarrow>
              sendWholeLoops SendMsg node' m streamID buf chunkSizeMinusHeader wholeLoops (i + 1);
            Returns (err, node'', c # cs)
          }
      } else Returns (None, node, []))"
  by pat_completeness auto
termination
proof (relation "measure (\<lambda>(SendMsg, node, m, streamID, buf, c, wholeLoops, i).
                   unat wholeLoops - unat i)", goal_cases)
  case 1
  show ?case by simp
next
  case (2 SendMsg node m streamID buf c wholeLoops i)
  then have lt: "unat i < unat wholeLoops" by (simp add: word_less_nat_alt)
  have "unat wholeLoops < 2 ^ LENGTH(32)" by (rule unsigned_less)
  with lt have "unat i + unat (1 :: 32 word) < 2 ^ LENGTH(32)" by simp
  then have "unat (i + 1) = unat i + unat (1 :: 32 word)" by (simp only: unat_add_lem)
  with lt show ?case by simp
qed

text \<open>
  \<open>SendChunked\<close>. \<open>random\<close> is what \<open>bc.GenerateRandomBytes(4)\<close> returns. All the
  arithmetic is \<open>uint32\<close>: \<open>uint32(len(buf))\<close> keeps the low 32 bits of the length,
  \<open>chunkSize - 8\<close> wraps, and the division panics on a zero divisor.
\<close>

definition SendChunked ::
  "('n \<Rightarrow> Msg \<Rightarrow> 'e option \<times> 'n) \<Rightarrow> bytes \<times> 'e option \<Rightarrow> 'n \<Rightarrow> 32 word \<Rightarrow> Msg
     \<Rightarrow> ('e option \<times> 'n \<times> Msg list) outcome" where
  "SendChunked SendMsg random node chunkSize m =
     (let buf = Content m;
          buflen = (of_nat (length buf) :: 32 word);
          chunkSizeMinusHeader = chunkSize - 8
      in if chunkSizeMinusHeader = 0 then Panics
         else
           (let wholeLoops = buflen div chunkSizeMinusHeader;
                remainder = buflen mod chunkSizeMinusHeader;
                totalChunks = (if remainder \<noteq> 0 then wholeLoops + 1 else wholeLoops)
            in if wholeLoops + remainder \<noteq> 0 then
                 (case random of
                    (streamID, Some e) \<Rightarrow> Returns (Some e, node, [])
                  | (streamID, None) \<Rightarrow>
                      (let hdr = chunkMsg m (streamID @ le32 totalChunks) True
                       in case SendMsg node hdr of
                            (Some e, node1) \<Rightarrow> Returns (Some e, node1, [hdr])
                          | (None, node1) \<Rightarrow> do {
                              (err, node2, cs) \<leftarrow>
                                sendWholeLoops SendMsg node1 m streamID buf
                                  chunkSizeMinusHeader wholeLoops 0;
                              if err \<noteq> None then Returns (err, node2, hdr # cs)
                              else if 0 < remainder then do {
                                body \<leftarrow> slice_from buf (unat (wholeLoops * chunkSizeMinusHeader));
                                let c = chunkMsg m (streamID @ le32 wholeLoops @ body) False;
                                case SendMsg node2 c of
                                  (err', node3) \<Rightarrow> Returns (err', node3, hdr # cs @ [c])
                              } else Returns (None, node2, hdr # cs)
                            }))
               else Returns (None, node, [])))"

text \<open>
  The spec's words for what \<open>SendChunked\<close> emits. The payload capacity of a chunk is
  \<open>chunkSize - 8\<close>; a payload of \<open>n\<close> bytes takes \<open>ceil(n / cap)\<close> chunks; the body of
  chunk \<open>j\<close> is the \<open>j\<close>-th piece of the payload cut into pieces of \<open>cap\<close> bytes; chunk
  \<open>j\<close> carries the stream ID, its number (little-endian) and its body; the messages are
  the stream header with the number of chunks, then the chunks in order, and nothing
  at all for an empty payload. \<open>le32_read\<close> reads a little-endian \<open>u32\<close> field back.
\<close>

definition le32_read :: "bytes \<Rightarrow> nat" where
  "le32_read b = unat (b ! 0) + 256 * unat (b ! 1) + 65536 * unat (b ! 2) + 16777216 * unat (b ! 3)"

definition payloadCapacity :: "32 word \<Rightarrow> nat" where
  "payloadCapacity chunkSize = unat chunkSize - 8"

definition numChunks :: "nat \<Rightarrow> nat \<Rightarrow> nat" where
  "numChunks cap n = (n + cap - 1) div cap"

definition chunkBody :: "nat \<Rightarrow> bytes \<Rightarrow> nat \<Rightarrow> bytes" where
  "chunkBody cap P j = take cap (drop (j * cap) P)"

definition expectedChunk :: "Msg \<Rightarrow> bytes \<Rightarrow> nat \<Rightarrow> nat \<Rightarrow> Msg" where
  "expectedChunk m streamID cap j =
     chunkMsg m (streamID @ le32 (of_nat j) @ chunkBody cap (Content m) j) False"

definition expectedMessages :: "Msg \<Rightarrow> bytes \<Rightarrow> nat \<Rightarrow> Msg list" where
  "expectedMessages m streamID cap =
     (if Content m = [] then []
      else chunkMsg m (streamID @ le32 (of_nat (numChunks cap (length (Content m))))) True
             # map (expectedChunk m streamID cap) [0..<numChunks cap (length (Content m))])"

section \<open>Concrete inputs\<close>

text \<open>
  A collaborator that leaves the bytes as they are: every tag check passes, a key is
  its own public key, only the empty string is not a key, and the codec decodes to the
  messages \<open>msgs\<close>.
\<close>

definition plainCollab :: "bytes list \<Rightarrow> Collab" where
  "plainCollab msgs =
     \<lparr>DecryptMessage = (\<lambda>key m. (True, m, None)),
      EncryptMessage = (\<lambda>key m destkey. (m, None)),
      GetPubKey = (\<lambda>key. key),
      FromB64 = (\<lambda>s. if s = [] then Some ''not a key'' else None),
      gobEncode = (\<lambda>ms. (concat ms, None)),
      gobDecode = (\<lambda>data. (msgs, None))\<rparr>"

text \<open>A node that has just been made: a new default router, empty tables, no channel keys.\<close>

definition freshNode :: NodeState where
  "freshNode =
     \<lparr>routingKey = ''routing'',
      contentKey = ''content'',
      channelKeys = Map.empty,
      router = NewDefaultRouter,
      channels = [],
      profiles = [],
      outbox = [],
      Out = [],
      OutRoom = 8,
      clock = 1000\<rparr>"

text \<open>The 32-byte nonce whose last byte is \<open>k\<close> and whose other bytes are 0.\<close>

definition nonceOf :: "nat \<Rightarrow> bytes" where
  "nonceOf k = replicate 31 0 @ [of_nat k]"

text \<open>The frame with an empty channel name, the nonce \<open>nonceOf k\<close> and 32 further bytes.\<close>

definition frameOf :: "nat \<Rightarrow> bytes" where
  "frameOf k = [0, 0] @ nonceOf k @ replicate 32 0"

text \<open>The body of that frame, and the message \<open>Handle\<close> delivers for it.\<close>

definition bodyOf :: "nat \<Rightarrow> bytes" where
  "bodyOf k = nonceOf k @ replicate 32 0"

definition contentMsg :: "nat \<Rightarrow> Msg" where
  "contentMsg k = \<lparr>Name = ''[content]'', Content = bodyOf k, IsChan = False, PubKey = [],
                    Chunked = False, StreamHeader = False\<rparr>"

text \<open>
  A frame that announces a channel name of 65502 bytes (\<open>0xFFDE\<close>) and is long enough
  for it: 2 + 65502 + 64 bytes.
\<close>

definition longNameFrame :: bytes where
  "longNameFrame = [0xFF, 0xDE] @ replicate 65566 0"

text \<open>A channel name of \<open>2^16\<close> bytes.\<close>

definition longName :: string where
  "longName = replicate 65536 (CHR ''a'')"

text \<open>A node whose outbox has rows at the timestamps 10, 20 and 30 under "alpha".\<close>

definition scenarioNode :: NodeState where
  "scenarioNode = freshNode\<lparr>outbox :=
     [\<lparr>channel = ''alpha'', msg = [1], timestamp = 10\<rparr>,
      \<lparr>channel = ''alpha'', msg = [2], timestamp = 20\<rparr>,
      \<lparr>channel = ''alpha'', msg = [3], timestamp = 30\<rparr>]\<rparr>"

text \<open>A node whose outbox has one row, stamped before the epoch.\<close>

definition earlyNode :: NodeState where
  "earlyNode = freshNode\<lparr>outbox := [\<lparr>channel = ''alpha'', msg = [1], timestamp = - 5\<rparr>]\<rparr>"

text \<open>The page that holds the nonces 1 to 32.\<close>

definition fullPage :: recentPage where
  "fullPage = fset_of_list (map nonceOf [1..<33])"

text \<open>A \<open>SendMsg\<close> that always succeeds and counts the messages it is given.\<close>

definition countingSendMsg :: "nat \<Rightarrow> Msg \<Rightarrow> string option \<times> nat" where
  "countingSendMsg n c = (None, Suc n)"

text \<open>A message of ten bytes, and one of \<open>2^32\<close> bytes.\<close>

definition smallMsg :: Msg where
  "smallMsg = \<lparr>Name = ''alpha'', Content = [1, 2, 3, 4, 5, 6, 7, 8, 9, 10], IsChan = True,
               PubKey = [], Chunked = False, StreamHeader = False\<rparr>"

definition hugeMsg :: Msg where
  "hugeMsg = \<lparr>Name = ''alpha'', Content = replicate 4294967296 0, IsChan = True,
              PubKey = [], Chunked = False, StreamHeader = False\<rparr>"

section \<open>Auxiliary definitions\<close>

text \<open>
  What \<open>seenRecently\<close> leaves behind, in one expression: the current page is emptied
  and the index moved on when the page was full, and the nonce is stored at the (new)
  index when no page held it.
\<close>

definition nextState :: "('z recentBuffer_scheme) \<Rightarrow> bytes \<Rightarrow> 'z recentBuffer_scheme" where
  "nextState r nonceVal =
     (let idx = recentPageIdx r;
          full = (entriesPerTable \<le> fcard (recentBuffer r idx));
          idx' = (if full then (if idx < recentBufferSize - 1 then idx + 1 else 0) else idx);
          pages1 = (if full then (recentBuffer r)(idx := {||}) else recentBuffer r);
          pages2 = (if hasMsgBeenSeen r nonceVal then pages1
                    else pages1(idx' := finsert nonceVal (pages1 idx')))
      in r\<lparr>recentPageIdx := idx', recentBuffer := pages2\<rparr>)"

text \<open>The buffer \<open>r\<close> with current page \<open>i\<close> holding \<open>S\<close> and every other page empty.\<close>

definition onePage :: "('z recentBuffer_scheme) \<Rightarrow> nat \<Rightarrow> recentPage \<Rightarrow> 'z recentBuffer_scheme" where
  "onePage r i S = r\<lparr>recentPageIdx := i, recentBuffer := (\<lambda>j. if j = i then S else {||})\<rparr>"

section \<open>Route: the length check\<close>

lemma channelLen_unat:
  "unat (push_bit 8 (ucast (m0 :: byte)) OR ucast (m1 :: byte) :: 16 word) = 256 * unat m0 + unat m1"
proof -
  have d: "push_bit 8 (ucast m0 :: 16 word) AND ucast m1 = 0"
    by (rule bit_eqI) (auto simp: bit_simps dest: bit_imp_le_length)
  have "push_bit 8 (ucast m0) OR ucast m1 = (push_bit 8 (ucast m0) + ucast m1 :: 16 word)"
    using d by (simp add: disjunctive_add_eq_or)
  moreover have "unat (push_bit 8 (ucast m0) + ucast m1 :: 16 word) = 256 * unat m0 + unat m1"
  proof -
    have a: "unat m0 < 256" using unsigned_less[of m0] by simp
    have b: "unat m1 < 256" using unsigned_less[of m1] by simp
    have "unat (ucast m0 :: 16 word) = unat m0"
      using a by (simp add: unsigned_ucast_eq take_bit_nat_eq_self)
    moreover have "unat (ucast m1 :: 16 word) = unat m1"
      using b by (simp add: unsigned_ucast_eq take_bit_nat_eq_self)
    ultimately show ?thesis using a b
      by (simp add: unat_word_ariths push_bit_eq_mult)
  qed
  ultimately show ?thesis by simp
qed

lemma Route_long_enough:
  assumes "2 \<le> length M" "\<not> length M < 2 + be16_read M + 64"
  shows "map_option fst (Route r node n M) \<noteq> Returns (Some Incorrect_channel_name_length)"
  using assms
  by (auto simp: Route_def index_def be16_read_def channelLen_unat Let_def
           split: Option.bind_splits prod.splits option.splits if_splits)

lemma Route_too_short:
  assumes "2 \<le> length M" "length M < 2 + be16_read M + 64"
  shows "Route r node n M = Returns (Some Incorrect_channel_name_length, r, n, [])"
  using assms
  by (auto simp: Route_def index_def be16_read_def channelLen_unat Let_def)

text \<open>
  C2, as the code has it: for a message \<open>M\<close> of at least two bytes, with \<open>chanLen\<close> the
  big-endian number in its first two bytes, \<open>Route\<close> returns its error "Incorrect
  channel name length" exactly when \<open>len(M) < 2 + chanLen + 64\<close> (the code's bound is
  64, not the 32 of the nonce), and then the router and the node are as before and no
  call of \<open>Handle\<close> or \<open>Forward\<close> has been made.
\<close>

theorem Route_invalid_frame_iff:
  assumes "2 \<le> length M"
  shows "(map_option fst (Route r node n M) = Returns (Some Incorrect_channel_name_length)
            \<longleftrightarrow> length M < 2 + be16_read M + 64) \<and>
         (length M < 2 + be16_read M + 64
            \<longrightarrow> Route r node n M = Returns (Some Incorrect_channel_name_length, r, n, []))"
  using Route_long_enough[OF assms, of r node n] Route_too_short[OF assms, of r node n]
  by auto

theorem Route_invalid_frame_iff_witness:
  "2 \<le> length (replicate 34 (0 :: byte)) \<and>
   length (replicate 34 (0 :: byte)) < 2 + be16_read (replicate 34 0) + 64 \<and>
   Route NewDefaultRouter (db_Node (plainCollab [])) freshNode (replicate 34 0)
     = Returns (Some Incorrect_channel_name_length, NewDefaultRouter, freshNode, [])"
  using Route_invalid_frame_iff[of "replicate 34 0" NewDefaultRouter "db_Node (plainCollab [])" freshNode]
  by (simp add: be16_read_def)

text \<open>
  C2 as stated fails: a frame of 34 zero bytes has \<open>chanLen = 0\<close> and is not shorter
  than \<open>2 + 0 + 32\<close>, yet \<open>Route\<close> returns the error.
\<close>

theorem Route_invalid_frame_counterexample:
  "Route NewDefaultRouter (db_Node (plainCollab [])) freshNode (replicate 34 0)
     = Returns (Some Incorrect_channel_name_length, NewDefaultRouter, freshNode, []) \<and>
   \<not> length (replicate 34 (0 :: byte)) < 2 + be16_read (replicate 34 0) + 32"
  by (simp add: Route_too_short be16_read_def)

text \<open>
  C10: \<open>Route\<close> reads \<open>message[0]\<close> and \<open>message[1]\<close> before any length check, so on
  every message shorter than two bytes it panics (index out of range) and returns no
  error at all.
\<close>

theorem Route_short_message_panics:
  "length message < 2 \<Longrightarrow> Route r node n message = Panics"
  by (cases message) (auto simp: Route_def index_def)

theorem Route_short_message_panics_witness:
  "length [0x41 :: byte] < 2 \<and>
   Route NewDefaultRouter (db_Node (plainCollab [])) freshNode [0x41] = Panics"
  using Route_short_message_panics[of "[0x41]" NewDefaultRouter "db_Node (plainCollab [])" freshNode]
  by simp

section \<open>The recent buffer\<close>

lemma hasMsgBeenSeen_iff:
  "hasMsgBeenSeen r nonce \<longleftrightarrow> (\<exists>i<recentBufferSize. nonce |\<in>| recentBuffer r i)"
  by (auto simp: hasMsgBeenSeen_def list_ex_iff)

lemma seenRecently_eq:
  assumes "nonceSize \<le> length nonce" "recentPageIdx r < recentBufferSize"
  shows "seenRecently r nonce =
           Returns (hasMsgBeenSeen r (take nonceSize nonce), nextState r (take nonceSize nonce))"
  using assms
  by (auto simp: seenRecently_def slice_def resetRecentPageIfFull_def setMsgSeen_def nextState_def
        Let_def recentBufferSize_def)

lemma nextState_idx:
  "recentPageIdx r < recentBufferSize \<Longrightarrow> recentPageIdx (nextState r v) < recentBufferSize"
  by (simp add: nextState_def Let_def recentBufferSize_def)

lemma seen_after_miss:
  assumes "recentPageIdx r < recentBufferSize" "\<not> hasMsgBeenSeen r v"
  shows "hasMsgBeenSeen (nextState r v) v"
proof -
  have "recentPageIdx (nextState r v) < recentBufferSize"
    using assms(1) by (rule nextState_idx)
  moreover have "v |\<in>| recentBuffer (nextState r v) (recentPageIdx (nextState r v))"
    using assms(2) by (simp add: nextState_def Let_def)
  ultimately show ?thesis
    unfolding hasMsgBeenSeen_iff by blast
qed

lemma seenRecently_again:
  assumes "recentPageIdx r < recentBufferSize" "seenRecently r nonce = Returns (False, r1)"
  shows "\<exists>r2. seenRecently r1 nonce = Returns (True, r2)"
proof -
  have len: "nonceSize \<le> length nonce"
    using assms(2) by (auto simp: seenRecently_def slice_def split: if_splits)
  from seenRecently_eq[OF len assms(1)] assms(2)
  have miss: "\<not> hasMsgBeenSeen r (take nonceSize nonce)"
    and r1: "r1 = nextState r (take nonceSize nonce)"
    by simp_all
  have "recentPageIdx r1 < recentBufferSize"
    unfolding r1 using assms(1) by (rule nextState_idx)
  from seenRecently_eq[OF len this] seen_after_miss[OF assms(1) miss]
  show ?thesis by (simp add: r1)
qed

lemma onePage_onePage [simp]: "onePage (onePage r i S) j T = onePage r j T"
  by (simp add: onePage_def)

lemma newRecentBuffer_onePage: "newRecentBuffer = onePage newRecentBuffer 0 {||}"
  by (simp add: newRecentBuffer_def onePage_def)

lemma NewDefaultRouter_onePage: "NewDefaultRouter = onePage NewDefaultRouter 0 {||}"
  by (simp add: NewDefaultRouter_def newRecentBuffer_def onePage_def)

lemma hasMsgBeenSeen_onePage:
  "i < recentBufferSize \<Longrightarrow> hasMsgBeenSeen (onePage r i S) nonce \<longleftrightarrow> nonce |\<in>| S"
  by (auto simp: hasMsgBeenSeen_iff onePage_def)

lemma seenRecently_onePage:
  assumes "length nonce = nonceSize" "i < recentBufferSize"
  shows "seenRecently (onePage r i S) nonce =
           Returns (nonce |\<in>| S,
             if entriesPerTable \<le> fcard S
             then onePage r (if i < recentBufferSize - 1 then i + 1 else 0)
                    (if nonce |\<in>| S then {||} else {|nonce|})
             else onePage r i (finsert nonce S))"
proof -
  have "seenRecently (onePage r i S) nonce =
          Returns (hasMsgBeenSeen (onePage r i S) nonce, nextState (onePage r i S) nonce)"
    using seenRecently_eq[of nonce "onePage r i S"] assms by (simp add: onePage_def)
  moreover have "nextState (onePage r i S) nonce =
     (if entriesPerTable \<le> fcard S
      then onePage r (if i < recentBufferSize - 1 then i + 1 else 0)
             (if nonce |\<in>| S then {||} else {|nonce|})
      else onePage r i (finsert nonce S))"
    using assms(2)
    by (auto simp: nextState_def hasMsgBeenSeen_onePage Let_def finsert_absorb)
       (auto simp: onePage_def fun_eq_iff)
  ultimately show ?thesis using assms(2) by (simp add: hasMsgBeenSeen_onePage)
qed

lemma seenRecentlyAll_append:
  "seenRecentlyAll r (xs @ ys) = do {
     (bs, r') \<leftarrow> seenRecentlyAll r xs;
     (cs, r'') \<leftarrow> seenRecentlyAll r' ys;
     Returns (bs @ cs, r'')
   }"
  by (induction xs arbitrary: r) (auto split: Option.bind_splits)

lemma seenRecentlyAll_misses:
  assumes "i < recentBufferSize" "distinct ns" "\<forall>n \<in> set ns. length n = nonceSize \<and> n |\<notin>| S"
    "fcard S + length ns \<le> entriesPerTable"
  shows "seenRecentlyAll (onePage r i S) ns =
           Returns (replicate (length ns) False, onePage r i (fset_of_list ns |\<union>| S))"
  using assms
proof (induction ns arbitrary: S)
  case Nil
  then show ?case by simp
next
  case (Cons n ns)
  have step: "seenRecently (onePage r i S) n = Returns (False, onePage r i (finsert n S))"
    using Cons.prems by (simp add: seenRecently_onePage)
  have card: "fcard (finsert n S) = Suc (fcard S)"
    using Cons.prems by (simp add: fcard_finsert_disjoint)
  have "seenRecentlyAll (onePage r i (finsert n S)) ns =
          Returns (replicate (length ns) False, onePage r i (fset_of_list ns |\<union>| finsert n S))"
    using Cons.prems card by (intro Cons.IH) auto
  then show ?case using step by simp
qed

lemma seenRecentlyAll_onePage:
  assumes "i < recentBufferSize" "fcard S \<le> entriesPerTable" "\<forall>n \<in> set ns. length n = nonceSize"
  shows "\<exists>bs j T. seenRecentlyAll (onePage r i S) ns = Returns (bs, onePage r j T) \<and>
           j < recentBufferSize \<and> fcard T \<le> entriesPerTable"
  using assms
proof (induction ns arbitrary: i S)
  case Nil
  then show ?case by auto
next
  case (Cons n ns)
  obtain j T where step: "seenRecently (onePage r i S) n = Returns (n |\<in>| S, onePage r j T)"
    and j: "j < recentBufferSize" and T: "fcard T \<le> entriesPerTable"
  proof (cases "entriesPerTable \<le> fcard S")
    case True
    have "seenRecently (onePage r i S) n = Returns (n |\<in>| S,
            onePage r (if i < recentBufferSize - 1 then i + 1 else 0) (if n |\<in>| S then {||} else {|n|}))"
      using Cons.prems True by (simp add: seenRecently_onePage)
    moreover have "(if i < recentBufferSize - 1 then i + 1 else 0) < recentBufferSize"
      by (simp add: recentBufferSize_def)
    moreover have "fcard (if n |\<in>| S then {||} else {|n|}) \<le> entriesPerTable"
      by (simp add: entriesPerTable_def cacheSize_def recentBufferSize_def fcard_fempty fcard_finsert_if)
    ultimately show ?thesis using that by blast
  next
    case False
    have "seenRecently (onePage r i S) n = Returns (n |\<in>| S, onePage r i (finsert n S))"
      using Cons.prems False by (simp add: seenRecently_onePage)
    moreover have "fcard (finsert n S) \<le> entriesPerTable"
      using False by (simp add: fcard_finsert_if)
    ultimately show ?thesis using that Cons.prems(1) by blast
  qed
  from Cons.IH[OF j T] Cons.prems(3) obtain bs j' T' where
    "seenRecentlyAll (onePage r j T) ns = Returns (bs, onePage r j' T')"
    "j' < recentBufferSize" "fcard T' \<le> entriesPerTable"
    by auto
  then show ?case using step by auto
qed

lemma nonceOf_simps: "length (nonceOf k) = nonceSize"
  by (simp add: nonceOf_def nonceSize_def)

lemma nonceOf_eq: "a < 256 \<Longrightarrow> b < 256 \<Longrightarrow> nonceOf a = nonceOf b \<longleftrightarrow> a = b"
  by (simp add: nonceOf_def word_of_nat_eq_iff take_bit_nat_eq_self)

lemma fullPage_run:
  "seenRecentlyAll (onePage r 0 {||}) (map nonceOf [1..<33])
     = Returns (replicate 32 False, onePage r 0 fullPage)"
proof -
  define ns where "ns = map nonceOf [1..<33]"
  have len: "length ns = 32"
    by (simp add: ns_def)
  have d: "distinct ns"
    by (auto simp: ns_def distinct_map inj_on_def nonceOf_eq)
  have sizes: "\<forall>n \<in> set ns. length n = nonceSize \<and> n |\<notin>| {||}"
    by (simp add: ns_def nonceOf_simps)
  have "seenRecentlyAll (onePage r 0 {||}) ns = Returns (replicate 32 False, onePage r 0 (fset_of_list ns))"
    using seenRecentlyAll_misses[of 0 ns "{||}" r] d sizes len
    by (simp add: recentBufferSize_def entriesPerTable_def cacheSize_def fcard_fempty)
  then show ?thesis by (simp only: ns_def fullPage_def)
qed

lemma fullPage_card: "fcard fullPage = 32"
proof -
  have "distinct (map nonceOf [1..<33])"
    by (auto simp: distinct_map inj_on_def nonceOf_eq)
  then have "card (set (map nonceOf [1..<33])) = length (map nonceOf [1..<33])"
    by (rule distinct_card)
  then show ?thesis
    by (simp add: fullPage_def fcard.rep_eq fset_of_list.rep_eq)
qed

lemma fullPage_mem: "nonceOf k |\<in>| fullPage \<longleftrightarrow> (\<exists>j \<in> {1..<33}. nonceOf k = nonceOf j)"
  by (auto simp: fullPage_def fset_of_list.rep_eq)

lemma fullPage_32: "nonceOf 32 |\<in>| fullPage"
  by (simp add: fullPage_mem) (rule bexI[of _ 32], simp_all)

lemma fullPage_33: "nonceOf 33 |\<notin>| fullPage"
  by (auto simp: fullPage_mem nonceOf_eq)

text \<open>
  C1 fails on the code. In a new buffer the nonces 1 to 32 are stored one after the
  other (each call answers false), which fills page 0; the nonce \<open>N = nonceOf 32\<close> is
  the last of them. The next call, for the one other nonce 33, empties page 0, the
  page that holds \<open>N\<close>, and moves on to page 1. The call for \<open>N\<close> after that answers
  false again, with a single insertion in between.
\<close>

theorem seenRecently_forgets_full_page:
  "map_option fst (seenRecentlyAll newRecentBuffer (map nonceOf [1..<33] @ [nonceOf 33, nonceOf 32]))
   = Returns (replicate 32 False @ [False, False])"
proof -
  let ?r = newRecentBuffer
  have s1: "seenRecently (onePage ?r 0 fullPage) (nonceOf 33)
              = Returns (False, onePage ?r (Suc 0) {|nonceOf 33|})"
    using fullPage_card fullPage_33
    by (simp add: seenRecently_onePage nonceOf_simps recentBufferSize_def entriesPerTable_def
          cacheSize_def)
  have s2: "seenRecently (onePage ?r (Suc 0) {|nonceOf 33|}) (nonceOf 32)
              = Returns (False, onePage ?r (Suc 0) {|nonceOf 32, nonceOf 33|})"
    by (simp add: seenRecently_onePage nonceOf_simps recentBufferSize_def entriesPerTable_def
          cacheSize_def nonceOf_eq fcard_finsert_if fcard_fempty)
  have "seenRecentlyAll (onePage ?r 0 {||}) (map nonceOf [1..<33] @ [nonceOf 33, nonceOf 32])
          = Returns (replicate 32 False @ [False, False], onePage ?r (Suc 0) {|nonceOf 32, nonceOf 33|})"
    unfolding seenRecentlyAll_append fullPage_run by (simp add: s1 s2)
  then show ?thesis
    by (simp add: newRecentBuffer_onePage[symmetric])
qed

section \<open>Route twice\<close>

lemma frameOf_length: "length (frameOf k) = 66"
  by (simp add: frameOf_def nonceOf_def)

lemma Route_frameOf:
  assumes "i < recentBufferSize"
  shows "Route (onePage r i S) node n (frameOf k) =
     (case seenRecently (onePage r i S) (nonceOf k) of
        Panics \<Rightarrow> Panics
      | Returns (seen, r') \<Rightarrow>
          if seen then Returns (None, r', n, [])
          else
            (case CID node n of
               (cid, Some e) \<Rightarrow> Returns (Some (NodeError e), r', n, [])
             | (cid, None) \<Rightarrow>
                 (case routePrivate r' node n (frameOf k) 2 of
                    Panics \<Rightarrow> Panics
                  | Returns (err, n', cs) \<Rightarrow> Returns (map_option NodeError err, r', n', cs))))"
  by (simp add: Route_def index_def frameOf_def nonceOf_def slice_def nonceSize_def
        split: option.splits prod.splits)


lemma onePage_settings [simp]:
  "Patches (onePage r i S) = Patches r"
  "CheckContent (onePage r i S) = CheckContent r"
  "CheckChannels (onePage r i S) = CheckChannels r"
  "CheckProfiles (onePage r i S) = CheckProfiles r"
  "ForwardConsumedContent (onePage r i S) = ForwardConsumedContent r"
  "ForwardConsumedChannels (onePage r i S) = ForwardConsumedChannels r"
  "ForwardConsumedProfiles (onePage r i S) = ForwardConsumedProfiles r"
  "ForwardUnknownContent (onePage r i S) = ForwardUnknownContent r"
  "ForwardUnknownChannels (onePage r i S) = ForwardUnknownChannels r"
  "ForwardUnknownProfiles (onePage r i S) = ForwardUnknownProfiles r"
  by (simp_all add: onePage_def)

lemma routePrivate_plain:
  "routePrivate (onePage NewDefaultRouter i S) (db_Node (plainCollab ms)) n (frameOf k) 2
     = Returns (None, offerOut n (contentMsg k), [HandleCall [] (bodyOf k)])"
  by (simp add: routePrivate_def handleAt_def forwardAt_def slice_from_def frameOf_def
        db_Node_def node_Handle_def plainCollab_def NewDefaultRouter_def contentMsg_def bodyOf_def)

lemma CID_plain: "CID (db_Node (plainCollab ms)) n = (contentKey n, None)"
  by (simp add: db_Node_def db_CID_def plainCollab_def)

lemma Route_plain:
  assumes "i < recentBufferSize"
  shows "Route (onePage NewDefaultRouter i S) (db_Node (plainCollab ms)) n (frameOf k) =
     (if nonceOf k |\<in>| S
      then Returns (None,
             (if entriesPerTable \<le> fcard S
              then onePage NewDefaultRouter (if i < recentBufferSize - 1 then i + 1 else 0) {||}
              else onePage NewDefaultRouter i S), n, [])
      else Returns (None,
             (if entriesPerTable \<le> fcard S
              then onePage NewDefaultRouter (if i < recentBufferSize - 1 then i + 1 else 0) {|nonceOf k|}
              else onePage NewDefaultRouter i (finsert (nonceOf k) S)),
             offerOut n (contentMsg k), [HandleCall [] (bodyOf k)]))"
  using assms
  by (simp add: Route_frameOf seenRecently_onePage nonceOf_simps CID_plain routePrivate_plain
        finsert_absorb)

lemma routeEach_append:
  "routeEach impl node (xs @ ys) = do {
     (node', routed) \<leftarrow> routeEach impl node xs;
     (node'', routed') \<leftarrow> routeEach impl node' ys;
     Returns (node'', routed @ routed')
   }"
  by (induction xs arbitrary: node) (auto split: Option.bind_splits)

lemma routeEach_misses:
  assumes "i < recentBufferSize" "distinct ks" "\<forall>k \<in> set ks. nonceOf k |\<notin>| S"
    "inj_on nonceOf (set ks)"
    "fcard S + length ks \<le> entriesPerTable" "router node = onePage NewDefaultRouter i S"
  shows "\<exists>node'. routeEach (db_Node (plainCollab ms)) node (map frameOf ks)
           = Returns (node', map (\<lambda>k. (frameOf k, None, [HandleCall [] (bodyOf k)])) ks) \<and>
         router node' = onePage NewDefaultRouter i (fset_of_list (map nonceOf ks) |\<union>| S)"
  using assms
proof (induction ks arbitrary: S node)
  case Nil
  then show ?case by simp
next
  case (Cons k ks)
  let ?node1 = "(offerOut node (contentMsg k))\<lparr>router := onePage NewDefaultRouter i (finsert (nonceOf k) S)\<rparr>"
  have step: "Route (router node) (db_Node (plainCollab ms)) node (frameOf k)
                = Returns (None, onePage NewDefaultRouter i (finsert (nonceOf k) S),
                           offerOut node (contentMsg k), [HandleCall [] (bodyOf k)])"
    using Cons.prems by (simp add: Route_plain)
  have card: "fcard (finsert (nonceOf k) S) = Suc (fcard S)"
    using Cons.prems by (simp add: fcard_finsert_disjoint)
  have fresh: "\<forall>j \<in> set ks. nonceOf j |\<notin>| finsert (nonceOf k) S"
    using Cons.prems by (auto simp: inj_on_def)
  have "\<exists>node'. routeEach (db_Node (plainCollab ms)) ?node1 (map frameOf ks)
           = Returns (node', map (\<lambda>k. (frameOf k, None, [HandleCall [] (bodyOf k)])) ks) \<and>
         router node' = onePage NewDefaultRouter i (fset_of_list (map nonceOf ks) |\<union>| finsert (nonceOf k) S)"
    using Cons.prems card fresh by (intro Cons.IH) auto
  then show ?case
    using step by (auto simp: frameOf_length)
qed

lemma Route_calls_after_miss:
  assumes "Route r impl n M = Returns (e1, r1, n1, cs1)" "cs1 \<noteq> [] \<or> e1 \<noteq> None \<and> e1 \<noteq> Some Incorrect_channel_name_length"
  shows "\<exists>m0 m1 nonce. index M 0 = Returns m0 \<and> index M 1 = Returns m1 \<and>
           \<not> length M < unat (push_bit 8 (ucast m0) OR ucast m1 :: 16 word) + 2 + 64 \<and>
           slice M (unat (2 + (push_bit 8 (ucast m0) OR ucast m1 :: 16 word)))
             (unat (2 + (push_bit 8 (ucast m0) OR ucast m1 :: 16 word) + of_nat nonceSize)) = Returns nonce \<and>
           seenRecently r nonce = Returns (False, r1)"
  using assms
  by (auto simp: Route_def Let_def split: Option.bind_splits if_splits prod.splits option.splits)

lemma Route_twice_at_most_once:
  assumes idx: "recentPageIdx r < recentBufferSize"
    and 1: "Route r impl n M = Returns (e1, r1, n1, cs1)"
    and 2: "Route r1 impl n1' M = Returns (e2, r2, n2, cs2)"
  shows "cs1 = [] \<or> (cs2 = [] \<and> e2 = None \<and> n2 = n1')"
proof (cases "cs1 = []")
  case True
  then show ?thesis by simp
next
  case False
  from Route_calls_after_miss[OF 1] False obtain m0 m1 nonce where
    m: "index M 0 = Returns m0" "index M 1 = Returns m1"
    and len: "\<not> length M < unat (push_bit 8 (ucast m0) OR ucast m1 :: 16 word) + 2 + 64"
    and sl: "slice M (unat (2 + (push_bit 8 (ucast m0) OR ucast m1 :: 16 word)))
             (unat (2 + (push_bit 8 (ucast m0) OR ucast m1 :: 16 word) + of_nat nonceSize)) = Returns nonce"
    and miss: "seenRecently r nonce = Returns (False, r1)"
    by blast
  from seenRecently_again[OF idx miss] obtain r2' where "seenRecently r1 nonce = Returns (True, r2')"
    by blast
  then have "Route r1 impl n1' M = Returns (None, r2', n1', [])"
    using m len sl by (simp add: Route_def Let_def)
  then show ?thesis using 2 by simp
qed

text \<open>
  C5 fails on the code, by the same reset of the page just filled as C1. A new node
  routes the 32 frames with the nonces 1 to 32, each of which is handled; that fills
  page 0 of the router. Routing the frame with nonce 32 once more finds the nonce and
  returns nil without a call, but empties the page; routing the same frame again at
  once does not find the nonce and calls \<open>Handle\<close> a second time. (What does hold is
  \<open>Route_twice_at_most_once\<close>: of two calls in succession that both return, at most
  one makes calls.)
\<close>

theorem routing_twice_after_full_page:
  "map_option snd (routeEach (db_Node (plainCollab [])) freshNode
      (map frameOf [1..<33] @ [frameOf 32, frameOf 32]))
   = Returns (map (\<lambda>k. (frameOf k, None, [HandleCall [] (bodyOf k)])) [1..<33] @
       [(frameOf 32, None, []), (frameOf 32, None, [HandleCall [] (bodyOf 32)])])"
proof -
  let ?impl = "db_Node (plainCollab [])"
  have inj: "inj_on nonceOf (set [1..<33])"
    by (auto simp: inj_on_def nonceOf_eq)
  have r0: "router freshNode = onePage NewDefaultRouter 0 {||}"
    by (simp add: freshNode_def NewDefaultRouter_onePage[symmetric])
  obtain node1 where
    run: "routeEach ?impl freshNode (map frameOf [1..<33])
            = Returns (node1, map (\<lambda>k. (frameOf k, None, [HandleCall [] (bodyOf k)])) [1..<33])"
    and r1: "router node1 = onePage NewDefaultRouter 0 fullPage"
    using routeEach_misses[of 0 "[1..<33]" "{||}" freshNode "[]"] inj r0
    by (auto simp: recentBufferSize_def entriesPerTable_def cacheSize_def fcard_fempty fullPage_def)
  have a: "Route (router node1) ?impl node1 (frameOf 32)
             = Returns (None, onePage NewDefaultRouter (Suc 0) {||}, node1, [])"
    using fullPage_32 fullPage_card
    by (simp add: r1 Route_plain recentBufferSize_def entriesPerTable_def cacheSize_def)
  have b: "Route (onePage NewDefaultRouter (Suc 0) {||}) ?impl (node1\<lparr>router := onePage NewDefaultRouter (Suc 0) {||}\<rparr>) (frameOf 32)
             = Returns (None, onePage NewDefaultRouter (Suc 0) {|nonceOf 32|},
                 offerOut (node1\<lparr>router := onePage NewDefaultRouter (Suc 0) {||}\<rparr>) (contentMsg 32),
                 [HandleCall [] (bodyOf 32)])"
    by (simp add: Route_plain recentBufferSize_def entriesPerTable_def cacheSize_def fcard_fempty)
  have tail: "routeEach ?impl node1 [frameOf 32, frameOf 32]
                = Returns ((offerOut (node1\<lparr>router := onePage NewDefaultRouter (Suc 0) {||}\<rparr>) (contentMsg 32))
                             \<lparr>router := onePage NewDefaultRouter (Suc 0) {|nonceOf 32|}\<rparr>,
                           [(frameOf 32, None, []), (frameOf 32, None, [HandleCall [] (bodyOf 32)])])"
    by (simp add: frameOf_length a b)
  have "routeEach ?impl freshNode (map frameOf [1..<33] @ [frameOf 32, frameOf 32])
          = Returns ((offerOut (node1\<lparr>router := onePage NewDefaultRouter (Suc 0) {||}\<rparr>) (contentMsg 32))
                             \<lparr>router := onePage NewDefaultRouter (Suc 0) {|nonceOf 32|}\<rparr>,
               map (\<lambda>k. (frameOf k, None, [HandleCall [] (bodyOf k)])) [1..<33] @
               [(frameOf 32, None, []), (frameOf 32, None, [HandleCall [] (bodyOf 32)])])"
    unfolding routeEach_append run by (simp add: tail del: routeEach.simps)
  then show ?thesis
    by simp
qed

section \<open>Framing of enqueued messages\<close>

lemma mod_mult_div: "(n :: nat) mod (a * b) div a = n div a mod b"
  by (cases "a = 0") (simp_all add: mod_mult2_eq)

lemma mod_mult_mod: "(n :: nat) mod (a * b) mod a = n mod a"
  by (simp add: mod_mult2_eq)

lemma arith_hi: "(n :: nat) mod 65536 div 256 = n div 256 mod 256"
  using mod_mult_div[of n 256 256] by simp

lemma arith_lo: "(n :: nat) mod 65536 mod 256 = n mod 256"
  using mod_mult_mod[of n 256 256] by simp

lemma unat_of_nat16: "unat (of_nat n :: 16 word) = n mod 65536"
  by (simp add: unat_of_nat)

lemma unat_ucast8: "unat (ucast (w :: 16 word) :: byte) = unat w mod 256"
  by (simp add: unsigned_ucast_eq take_bit_eq_mod)

lemma unat_drop8: "unat (drop_bit 8 (w :: 16 word)) = unat w div 256"
  by (simp add: unat_drop_bit_eq drop_bit_eq_div unat_div)

lemma unat_and_ff: "unat ((w :: 16 word) AND 0xFF) = unat w mod 256"
proof -
  have m: "(0xFF :: 16 word) = mask 8" by (simp add: mask_eq_exp_minus_1)
  show ?thesis
    unfolding m by (simp add: unsigned_and_eq take_bit_eq_mod unat_mod flip: take_bit_eq_mask)
qed

lemma hi_byte: "(ucast (drop_bit 8 (of_nat n :: 16 word)) :: byte) = of_nat (n div 256)"
proof -
  have "unat (ucast (drop_bit 8 (of_nat n :: 16 word)) :: byte) = n div 256 mod 256"
    by (simp only: unat_ucast8 unat_drop8 unat_of_nat16 arith_hi mod_mod_trivial)
  moreover have "unat (of_nat (n div 256) :: byte) = n div 256 mod 256"
    by (simp add: unat_of_nat)
  ultimately show ?thesis
    by (simp only: word_unat_eq_iff)
qed

lemma lo_byte: "(ucast ((of_nat n :: 16 word) AND 0xFF) :: byte) = of_nat (n mod 256)"
proof -
  have "unat (ucast ((of_nat n :: 16 word) AND 0xFF) :: byte) = n mod 256"
    by (simp only: unat_ucast8 unat_and_ff unat_of_nat16 arith_lo mod_mod_trivial)
  moreover have "unat (of_nat (n mod 256) :: byte) = n mod 256"
    by (simp add: unat_of_nat)
  ultimately show ?thesis
    by (simp only: word_unat_eq_iff)
qed

lemma rxsum_bytes:
  "rxsum channelName =
     [of_nat (length channelName div 256), of_nat (length channelName mod 256)] @
     bytes_of_string channelName"
  by (simp only: rxsum_def hi_byte lo_byte Let_def)

lemma be16_read_bytes:
  assumes "n < 65536"
  shows "be16_read ([of_nat (n div 256), of_nat (n mod 256)] @ rest) = n"
proof -
  from assms have "n div 256 < 256" by simp
  then have "unat (of_nat (n div 256) :: byte) = n div 256"
    by (simp add: unat_of_nat)
  moreover have "unat (of_nat (n mod 256) :: byte) = n mod 256"
    by (simp add: unat_of_nat)
  ultimately show ?thesis
    by (simp add: be16_read_def)
qed

lemma be16_read_rxsum: "be16_read (rxsum channelName @ body) = length channelName mod 65536"
proof -
  define n where "n = length channelName"
  have hi: "unat (of_nat (n div 256) :: byte) = n div 256 mod 256"
    by (simp add: unat_of_nat)
  have lo: "unat (of_nat (n mod 256) :: byte) = n mod 256"
    by (simp add: unat_of_nat)
  have "n mod 65536 = 256 * (n mod 65536 div 256) + n mod 65536 mod 256"
    by simp
  then have ar: "n mod 65536 = 256 * (n div 256 mod 256) + n mod 256"
    by (simp only: arith_hi arith_lo)
  have "be16_read (rxsum channelName @ body) = 256 * (n div 256 mod 256) + n mod 256"
    by (simp add: rxsum_bytes be16_read_def hi lo flip: n_def)
  with ar show ?thesis
    by (simp add: n_def)
qed

lemma longName_length: "length longName = 65536"
  by (simp add: longName_def)


text \<open>
  C9, for channel names shorter than \<open>2^16\<close> bytes: the message that \<open>Forward\<close> (of
  either package) and \<open>send\<close> append to the outbox is the two-byte big-endian encoding
  of \<open>len(channelName)\<close>, then the bytes of the name, then the body (for \<open>send\<close>: the
  encrypted body); \<open>Forward\<close> of package \<open>qldb\<close> may leave the outbox as it is (the
  pair is stored already), and \<open>send\<close> does so when encryption fails.
\<close>

theorem enqueued_message_prefix:
  assumes "length channelName < 65536"
  shows "\<exists>p. be16 (length channelName) = Some p \<and> length p = 2 \<and>
     be16_read p = length channelName \<and>
     (outbox (snd (qldb_Forward node channelName body)) = outbox node \<or>
      outbox (snd (qldb_Forward node channelName body)) = outbox node @
        [\<lparr>channel = channelName,
          msg = p @ bytes_of_string channelName @ body,
          timestamp = clock node\<rparr>]) \<and>
     outbox (snd (db_Forward node channelName body)) = outbox node @
        [\<lparr>channel = channelName,
          msg = p @ bytes_of_string channelName @ body,
          timestamp = clock node\<rparr>] \<and>
     outbox (snd (send collab node channelName destkey plain)) =
        (case EncryptMessage collab (contentKey node) plain destkey of
           (data, Some e) \<Rightarrow> outbox node
         | (data, None) \<Rightarrow> outbox node @
             [\<lparr>channel = channelName,
               msg = p @ bytes_of_string channelName @ data,
               timestamp = clock node\<rparr>])"
proof -
  let ?p = "[of_nat (length channelName div 256), of_nat (length channelName mod 256)] :: bytes"
  have e: "be16 (length channelName) = Some ?p"
    using assms by (simp add: be16_def)
  have r: "be16_read ?p = length channelName"
    using be16_read_bytes[OF assms, of "[]"] by simp
  have f: "rxsum channelName = ?p @ bytes_of_string channelName"
    by (rule rxsum_bytes)
  show ?thesis
    apply (rule exI[of _ ?p])
    using e r
    by (auto simp: qldb_Forward_def db_Forward_def send_def dbOutboxEnqueue_def f Let_def
        split: prod.splits option.splits)
qed

theorem enqueued_message_prefix_witness:
  "length ''alpha'' < (65536 :: nat) \<and> be16 (length ''alpha'') = Some [0, 5] \<and>
   outbox (snd (db_Forward freshNode ''alpha'' [1, 2, 3])) =
      [\<lparr>channel = ''alpha'', msg = [0, 5] @ bytes_of_string ''alpha'' @ [1, 2, 3], timestamp = 1000\<rparr>]"
  using enqueued_message_prefix[of "''alpha''" freshNode "[1, 2, 3]" "plainCollab []" "''key''" "[]"]
  by (simp add: freshNode_def be16_def)

text \<open>
  C9 as stated fails for a channel name of \<open>2^16\<close> bytes: its length has no two-byte
  encoding, and the message stored begins with the bytes 0 and 0
  (\<open>uint16(len(channelName))\<close> is 0), which read back as the length 0.
\<close>

theorem enqueued_message_prefix_counterexample:
  "length longName = 65536 \<and>
   be16 (length longName) = None \<and>
   outbox (snd (db_Forward freshNode longName [1, 2, 3])) =
      [\<lparr>channel = longName, msg = [0, 0] @ bytes_of_string longName @ [1, 2, 3], timestamp = 1000\<rparr>] \<and>
   be16_read ([0, 0] @ bytes_of_string longName @ [1, 2, 3]) = 0 \<and>
   outbox (snd (qldb_Forward freshNode longName [1, 2, 3])) =
      [\<lparr>channel = longName, msg = [0, 0] @ bytes_of_string longName @ [1, 2, 3], timestamp = 1000\<rparr>] \<and>
   outbox (snd (send (plainCollab []) freshNode longName ''key'' [1, 2, 3])) =
      [\<lparr>channel = longName, msg = [0, 0] @ bytes_of_string longName @ [1, 2, 3], timestamp = 1000\<rparr>]"
  by (simp add: longName_length be16_def db_Forward_def qldb_Forward_def send_def dbOutboxEnqueue_def
      rxsum_bytes freshNode_def be16_read_def plainCollab_def Let_def)

section \<open>The channel-key cache\<close>

lemma DeleteChannel_keeps_cache:
  "channelKeys (snd (DeleteChannel node name)) = channelKeys node"
  by (simp add: DeleteChannel_def dbDeleteChannel_def)

text \<open>
  C7 fails on the code: \<open>AddChannel\<close> refreshes the cache, \<open>DeleteChannel\<close> never does
  (and \<open>refreshChannels\<close> only ever adds keys). On a new node, after adding and then
  deleting the channel "alpha" the store has no channel left, but the cache still holds
  the key, and \<open>Handle\<close> for "alpha" does not fail with the unknown-channel error.
\<close>

theorem DeleteChannel_leaves_key_in_cache:
  "fst (AddChannel freshNode ''alpha'' ''key'') = None \<and>
   fst (DeleteChannel (snd (AddChannel freshNode ''alpha'' ''key'')) ''alpha'') = None \<and>
   channels (snd (DeleteChannel (snd (AddChannel freshNode ''alpha'' ''key'')) ''alpha'')) = [] \<and>
   channelKeys (snd (DeleteChannel (snd (AddChannel freshNode ''alpha'' ''key'')) ''alpha'')) ''alpha''
     = Some ''key'' \<and>
   snd (fst (node_Handle collab (snd (DeleteChannel (snd (AddChannel freshNode ''alpha'' ''key'')) ''alpha''))
          ''alpha'' body))
     \<noteq> Some Cannot_Handle_message_for_Unknown_Channel"
  by (auto simp: AddChannel_def DeleteChannel_def dbAddChannel_def dbDeleteChannel_def
        refreshChannels_def dbGetChannelPrivs_def freshNode_def node_Handle_def
        split: prod.splits)

theorem DeleteChannel_leaves_key_in_cache_witness:
  "channelKeys (snd (DeleteChannel (snd (AddChannel freshNode ''alpha'' ''key'')) ''alpha'')) ''alpha''
     = Some ''key'' \<and>
   snd (fst (node_Handle (plainCollab [])
          (snd (DeleteChannel (snd (AddChannel freshNode ''alpha'' ''key'')) ''alpha'')) ''alpha'' [1]))
     \<noteq> Some Cannot_Handle_message_for_Unknown_Channel"
  using DeleteChannel_leaves_key_in_cache[of "plainCollab []" "[1]"]
  by blast

section \<open>Pickup: the channel names\<close>

lemma alphabet_alphanumeric: "list_all alphanumeric alphabet"
  by (simp add: alphabet_def alphanumeric_def)

lemma alphanumeric_codes:
  "list_all (\<lambda>n. char_of n \<in> set alphabet) ([48..<58] @ [65..<91] @ [97..<123])"
  by code_simp

lemma alphabet_iff: "c \<in> set alphabet \<longleftrightarrow> alphanumeric c"
proof
  assume "c \<in> set alphabet"
  then show "alphanumeric c"
    using alphabet_alphanumeric by (simp add: list_all_iff)
next
  assume a: "alphanumeric c"
  define n where "n = (of_char c :: nat)"
  have "n \<in> {48..<58} \<union> ({65..<91} \<union> {97..<123})"
    using a by (auto simp: alphanumeric_def n_def Let_def)
  then have "n \<in> set ([48..<58] @ [65..<91] @ [97..<123])"
    by (simp only: set_append set_upt)
  then have "char_of n \<in> set alphabet"
    using alphanumeric_codes by (simp only: list_all_iff)
  then show "c \<in> set alphabet"
    by (simp add: n_def)
qed

lemma validName_iff: "validName cname \<longleftrightarrow> (\<forall>c \<in> set cname. alphanumeric c)"
  by (simp add: validName_def list_all_iff alphabet_iff)

lemma pickupBundle_error:
  "snd (pickupBundle collab node rpub lastTime rows) \<noteq> Some Invalid_character_in_channel_name"
  by (simp add: pickupBundle_def Let_def split: prod.splits option.splits)

text \<open>
  C8: when at least one channel name is given, \<open>Pickup\<close> returns the error "Invalid
  character in channel name" exactly when some name has a character outside
  \<open>[A-Za-z0-9]\<close>; when no name is given that error never comes, and the bundle is made
  from the rows of every channel (only the timestamp filters them).
\<close>

theorem Pickup_invalid_channel_name_iff:
  "(channelNames \<noteq> [] \<longrightarrow>
      (snd (Pickup collab node rpub lastTime channelNames) = Some Invalid_character_in_channel_name
         \<longleftrightarrow> (\<exists>cname \<in> set channelNames. \<exists>c \<in> set cname. \<not> alphanumeric c))) \<and>
   snd (Pickup collab node rpub lastTime []) \<noteq> Some Invalid_character_in_channel_name \<and>
   Pickup collab node rpub lastTime [] =
     pickupBundle collab node rpub lastTime
       (take 250 (sort_key timestamp
          (filter (\<lambda>row. lastTime = 0 \<or> lastTime < timestamp row) (outbox node))))"
  by (auto simp: Pickup_def Let_def pickupBundle_error list_ex_iff validName_iff pickupQuery_def)

theorem Pickup_invalid_channel_name_iff_witness:
  "[''alpha'', ''be-ta''] \<noteq> [] \<and>
   snd (Pickup (plainCollab []) freshNode ''k'' 0 [''alpha'', ''be-ta''])
     = Some Invalid_character_in_channel_name \<and>
   \<not> alphanumeric (CHR ''-'')"
  using Pickup_invalid_channel_name_iff[of "[''alpha'', ''be-ta'']" "plainCollab []" freshNode "''k''" 0]
  by (auto simp: alphanumeric_def)

section \<open>Pickup: the time of the bundle\<close>

lemma lastTimeReturned_max:
  "lastTimeReturned t rows = (if rows = [] then t else max t (Max (timestamp ` set rows)))"
proof (induction rows arbitrary: t)
  case Nil
  then show ?case by (simp add: lastTimeReturned_def)
next
  case (Cons row rows)
  have "lastTimeReturned t (row # rows) = lastTimeReturned (max t (timestamp row)) rows"
    by (simp add: lastTimeReturned_def max_def)
  then show ?case
    using Cons.IH[of "max t (timestamp row)"] by (auto simp: max.assoc)
qed

lemma pickupQuery_newer:
  "lastTime \<noteq> 0 \<Longrightarrow> row \<in> set (pickupQuery node lastTime wildcard channelNames)
     \<Longrightarrow> lastTime < timestamp row"
  by (auto simp: pickupQuery_def dest!: in_set_takeD)

lemma pickupBundle_Time:
  "Time (fst (pickupBundle collab node rpub lastTime rows)) = lastTimeReturned lastTime rows"
  by (simp add: pickupBundle_def Let_def split: prod.splits option.splits)

lemma pickupBundle_empty:
  "pickupBundle collab node rpub lastTime [] = (\<lparr>Data = [], Time = lastTime\<rparr>, None)"
  by (simp add: pickupBundle_def lastTimeReturned_def)

text \<open>
  C4, as the code has it: when the names pass the check, the \<open>Time\<close> of the bundle is
  never below \<open>lastTime\<close>; with no row returned \<open>Pickup\<close> returns \<open>lastTime\<close> and empty
  data; with rows returned \<open>Time\<close> is the larger of \<open>lastTime\<close> and the largest
  timestamp among them, which is that largest timestamp whenever \<open>lastTime\<close> is not 0
  (the query then returns newer rows only) or the largest timestamp is not negative.
\<close>

theorem Pickup_time:
  assumes "channelNames = [] \<or> list_all validName channelNames"
  shows "lastTime \<le> Time (fst (Pickup collab node rpub lastTime channelNames)) \<and>
     (pickupQuery node lastTime (channelNames = []) channelNames = [] \<longrightarrow>
        Pickup collab node rpub lastTime channelNames = (\<lparr>Data = [], Time = lastTime\<rparr>, None)) \<and>
     (pickupQuery node lastTime (channelNames = []) channelNames \<noteq> [] \<longrightarrow>
        Time (fst (Pickup collab node rpub lastTime channelNames)) =
          max lastTime (Max (timestamp ` set (pickupQuery node lastTime (channelNames = []) channelNames)))) \<and>
     (pickupQuery node lastTime (channelNames = []) channelNames \<noteq> [] \<and>
      (lastTime \<noteq> 0 \<or>
       0 \<le> Max (timestamp ` set (pickupQuery node lastTime (channelNames = []) channelNames))) \<longrightarrow>
        Time (fst (Pickup collab node rpub lastTime channelNames)) =
          Max (timestamp ` set (pickupQuery node lastTime (channelNames = []) channelNames)))"
proof -
  let ?rows = "pickupQuery node lastTime (channelNames = []) channelNames"
  have P: "Pickup collab node rpub lastTime channelNames = pickupBundle collab node rpub lastTime ?rows"
    using assms by (auto simp: Pickup_def Let_def list_ex_iff list_all_iff)
  have T: "Time (fst (Pickup collab node rpub lastTime channelNames)) = lastTimeReturned lastTime ?rows"
    by (simp add: P pickupBundle_Time)
  have 1: "lastTime \<le> lastTimeReturned lastTime ?rows"
    by (simp add: lastTimeReturned_max)
  have 2: "?rows = [] \<longrightarrow> Pickup collab node rpub lastTime channelNames = (\<lparr>Data = [], Time = lastTime\<rparr>, None)"
    by (simp add: P pickupBundle_empty)
  have 3: "?rows \<noteq> [] \<longrightarrow> lastTimeReturned lastTime ?rows = max lastTime (Max (timestamp ` set ?rows))"
    by (simp add: lastTimeReturned_max)
  have 4: "?rows \<noteq> [] \<and> (lastTime \<noteq> 0 \<or> 0 \<le> Max (timestamp ` set ?rows))
             \<longrightarrow> lastTimeReturned lastTime ?rows = Max (timestamp ` set ?rows)"
  proof
    assume a: "?rows \<noteq> [] \<and> (lastTime \<noteq> 0 \<or> 0 \<le> Max (timestamp ` set ?rows))"
    then obtain row where r: "row \<in> set ?rows" by (cases ?rows) auto
    have "lastTime \<le> Max (timestamp ` set ?rows)"
    proof (cases "lastTime = 0")
      case True
      then show ?thesis using a by simp
    next
      case False
      then have "lastTime < timestamp row" using r pickupQuery_newer by blast
      moreover have "timestamp row \<le> Max (timestamp ` set ?rows)" using r by simp
      ultimately show ?thesis by linarith
    qed
    then have "max lastTime (Max (timestamp ` set ?rows)) = Max (timestamp ` set ?rows)"
      by linarith
    then show "lastTimeReturned lastTime ?rows = Max (timestamp ` set ?rows)"
      using a by (simp add: lastTimeReturned_max)
  qed
  show ?thesis
    unfolding T using 1 2 3 4 by blast
qed


theorem Pickup_time_witness:
  "list_all validName [''alpha''] \<and>
   pickupQuery scenarioNode 15 False [''alpha''] \<noteq> [] \<and>
   (15 :: int) \<noteq> 0 \<and>
   Time (fst (Pickup (plainCollab []) scenarioNode ''k'' 15 [''alpha''])) = 30 \<and>
   pickupQuery freshNode 15 True [] = [] \<and>
   Pickup (plainCollab []) freshNode ''k'' 15 [] = (\<lparr>Data = [], Time = 15\<rparr>, None)"
proof -
  have v: "list_all validName [''alpha'']"
    by (simp add: validName_def alphabet_def)
  have q: "pickupQuery scenarioNode 15 False [''alpha''] =
             [\<lparr>channel = ''alpha'', msg = [2], timestamp = 20\<rparr>,
              \<lparr>channel = ''alpha'', msg = [3], timestamp = 30\<rparr>]"
    by (simp add: pickupQuery_def scenarioNode_def freshNode_def)
  have e: "pickupQuery freshNode 15 True [] = []"
    by (simp add: pickupQuery_def freshNode_def)
  show ?thesis
    using Pickup_time[of "[''alpha'']" 15 "plainCollab []" scenarioNode "''k''"]
      Pickup_time[of "[]" 15 "plainCollab []" freshNode "''k''"] v
    by (simp add: q e)
qed

text \<open>
  C4 as stated fails for \<open>lastTime = 0\<close>, where the query has no \<open>WHERE\<close> on the
  timestamp: the one row of \<open>earlyNode\<close>, stamped \<open>-5\<close>, is returned, and the bundle's
  time is 0, not \<open>-5\<close>.
\<close>

theorem Pickup_time_counterexample:
  "pickupQuery earlyNode 0 True [] = [\<lparr>channel = ''alpha'', msg = [1], timestamp = - 5\<rparr>] \<and>
   Time (fst (Pickup (plainCollab []) earlyNode ''k'' 0 [])) = 0 \<and>
   Max (timestamp ` set (pickupQuery earlyNode 0 True [])) = - 5"
  by (simp add: pickupQuery_def earlyNode_def freshNode_def Pickup_def pickupBundle_def
        lastTimeReturned_def plainCollab_def)

section \<open>Dropoff\<close>

lemma routeEach_routed:
  "routeEach impl node msgs = Returns (node', routed)
     \<Longrightarrow> map fst routed = filter (\<lambda>m. 16 \<le> length m) msgs"
proof (induction msgs arbitrary: node node' routed)
  case Nil
  then show ?case by simp
next
  case (Cons m msgs)
  show ?case
  proof (cases "length m < 16")
    case True
    then show ?thesis using Cons by simp
  next
    case False
    then show ?thesis using Cons
      by (auto split: Option.bind_splits)
  qed
qed

lemma Dropoff_error_cases:
  assumes "Dropoff collab impl node bundle = Returns (Some e, node', routed)"
  shows "node' = node \<and> routed = [] \<and>
         (length (Data bundle) < 1 \<and> e = Dropoff_called_with_no_data \<or>
          (\<exists>tagOK data s. DecryptMessage collab (routingKey node) (Data bundle) = (tagOK, data, Some s)
             \<and> e = Collaborator s) \<or>
          (\<exists>data. DecryptMessage collab (routingKey node) (Data bundle) = (False, data, None)
             \<and> e = Luggage_Tag_Check_Failed_in_Dropoff) \<or>
          (\<exists>data msgs s. DecryptMessage collab (routingKey node) (Data bundle) = (True, data, None)
             \<and> gobDecode collab data = (msgs, Some s) \<and> e = Collaborator s))"
  using assms
  by (auto simp: Dropoff_def split: if_splits prod.splits option.splits Option.bind_splits)

lemma Dropoff_routes_every_message:
  assumes "Dropoff collab impl node bundle = Returns (err, node', routed)"
    "0 < length (Data bundle)"
    "DecryptMessage collab (routingKey node) (Data bundle) = (True, data, None)"
    "gobDecode collab data = (msgs, None)"
  shows "err = None \<and> map fst routed = filter (\<lambda>m. 16 \<le> length m) msgs"
  using assms
  by (auto simp: Dropoff_def routeEach_routed split: Option.bind_splits)

lemma Route_longNameFrame: "Route r node n longNameFrame = Panics"
  by (simp add: Route_def index_def slice_def longNameFrame_def nonceSize_def)

text \<open>
  C6 fails on the code. \<open>idx + nonceSize\<close> is computed in \<open>uint16\<close>: for the frame
  \<open>longNameFrame\<close> (\<open>channelLen = 65502\<close>, long enough to pass the length check) it
  wraps to 0, the slice \<open>message[65504:0]\<close> panics in \<open>Route\<close>, and \<open>Dropoff\<close> does not
  recover: for a bundle that decrypts and decodes to this frame and a second message,
  \<open>Dropoff\<close> panics, whatever the node, and the second message is never routed.
\<close>

theorem Dropoff_panics_on_long_channel_name:
  "Dropoff (plainCollab [longNameFrame, frameOf 1]) impl node \<lparr>Data = [1], Time = 0\<rparr> = Panics"
  by (simp add: Dropoff_def plainCollab_def Route_longNameFrame longNameFrame_def[THEN arg_cong, of length])

section \<open>SendChunked\<close>

lemma unat_succ_less:
  "i < (w :: 'a::len word) \<Longrightarrow> unat (i + 1) = Suc (unat i)"
proof -
  assume a: "i < w"
  have 1: "unat i < unat w" using a by (simp add: word_less_nat_alt)
  have 2: "unat w < 2 ^ LENGTH('a)" by (rule unsigned_less)
  from 1 2 have "unat i + 1 < 2 ^ LENGTH('a)" by linarith
  then have "unat i + unat (1 :: 'a word) < 2 ^ LENGTH('a)" by simp
  then have "unat (i + 1) = unat i + unat (1 :: 'a word)" by (simp only: unat_add_lem)
  then show ?thesis by simp
qed

lemma loop_bounds:
  fixes i w c :: "32 word"
  assumes "i < w" "unat w * unat c \<le> length P" "length P < 2 ^ 32"
  shows "unat (i * c) = unat i * unat c"
    and "unat (i * c + c) = unat i * unat c + unat c"
    and "unat i * unat c + unat c \<le> length P"
proof -
  have lt: "unat i < unat w" using assms(1) by (simp add: word_less_nat_alt)
  then have "Suc (unat i) \<le> unat w" by simp
  then have "Suc (unat i) * unat c \<le> unat w * unat c" by (rule mult_le_mono1)
  then show le: "unat i * unat c + unat c \<le> length P" using assms(2) by simp
  then have "unat i * unat c < 2 ^ LENGTH(32)" using assms(3) by simp
  then show m: "unat (i * c) = unat i * unat c" by (simp only: unat_mult_lem)
  have "unat (i * c) + unat c < 2 ^ LENGTH(32)" unfolding m using le assms(3) by simp
  then have "unat (i * c + c) = unat (i * c) + unat c" by (simp only: unat_add_lem)
  then show "unat (i * c + c) = unat i * unat c + unat c" by (simp only: m)
qed

lemma sendWholeLoops_sent:
  fixes i w c :: "32 word"
  assumes "unat w * unat c \<le> length (Content m)" "length (Content m) < 2 ^ 32"
  shows "\<exists>err node' n. sendWholeLoops SendMsg node m streamID (Content m) c w i
           = Returns (err, node', map (expectedChunk m streamID (unat c)) [unat i..<n])
         \<and> n \<le> max (unat i) (unat w) \<and> (err = None \<longrightarrow> n = max (unat i) (unat w))"
  using assms
proof (induction SendMsg node m streamID "Content m" c w i rule: sendWholeLoops.induct)
  case (1 SendMsg node m streamID c w i)
  show ?case
  proof (cases "i < w")
    case False
    then have "unat w \<le> unat i" by (simp add: word_less_nat_alt)
    then have "max (unat i) (unat w) = unat i" by simp
    then show ?thesis using False
      by (subst sendWholeLoops.simps) (auto intro!: exI[of _ "unat i"])
  next
    case True
    note b = loop_bounds[OF True "1.prems"]
    have sl: "slice (Content m) (unat (i * c)) (unat (i * c + c)) = Returns (chunkBody (unat c) (Content m) (unat i))"
      using b by (simp add: slice_def chunkBody_def)
    define ch where "ch = expectedChunk m streamID (unat c) (unat i)"
    have ch: "chunkMsg m (streamID @ le32 i @ chunkBody (unat c) (Content m) (unat i)) False = ch"
      by (simp add: ch_def expectedChunk_def)
    have lt: "unat i < unat w" using True by (simp add: word_less_nat_alt)
    have suc: "unat (i + 1) = Suc (unat i)" using True by (rule unat_succ_less)
    obtain e node' where s: "SendMsg node ch = (e, node')" by (cases "SendMsg node ch")
    show ?thesis
    proof (cases e)
      case (Some x)
      have "sendWholeLoops SendMsg node m streamID (Content m) c w i = Returns (Some x, node', [ch])"
        using True sl ch s Some by (subst sendWholeLoops.simps) simp
      moreover have "[ch] = map (expectedChunk m streamID (unat c)) [unat i..<Suc (unat i)]"
        by (simp add: ch_def)
      ultimately show ?thesis using lt
        by (intro exI[of _ "Some x"] exI[of _ node'] exI[of _ "Suc (unat i)"]) simp
    next
      case None
      from "1.hyps"[OF True _ _ _ _ "1.prems", of "chunkBody (unat c) (Content m) (unat i)" ch None node']
      obtain err node'' n where
        rec: "sendWholeLoops SendMsg node' m streamID (Content m) c w (i + 1)
                = Returns (err, node'', map (expectedChunk m streamID (unat c)) [unat (i + 1)..<n])"
        and n: "n \<le> max (unat (i + 1)) (unat w)" "err = None \<longrightarrow> n = max (unat (i + 1)) (unat w)"
        using sl ch s None by auto
      have mx: "max (unat (i + 1)) (unat w) = unat w" "max (unat i) (unat w) = unat w"
        using lt suc by simp_all
      have "sendWholeLoops SendMsg node m streamID (Content m) c w i
              = Returns (err, node'', ch # map (expectedChunk m streamID (unat c)) [Suc (unat i)..<n])"
        using True sl ch s None rec suc by (subst sendWholeLoops.simps) simp
      moreover have "ch # map (expectedChunk m streamID (unat c)) [Suc (unat i)..<n]
                = map (expectedChunk m streamID (unat c)) [unat i..<max n (Suc (unat i))]"
        by (cases "Suc (unat i) \<le> n") (simp_all add: upt_conv_Cons ch_def max_def)
      ultimately have "sendWholeLoops SendMsg node m streamID (Content m) c w i
              = Returns (err, node'', map (expectedChunk m streamID (unat c)) [unat i..<max n (Suc (unat i))])"
        by simp
      moreover have "max n (Suc (unat i)) \<le> max (unat i) (unat w)"
        using n(1) mx lt by simp
      moreover have "err = None \<longrightarrow> max n (Suc (unat i)) = max (unat i) (unat w)"
        using n(2) mx lt by auto
      ultimately show ?thesis
        by blast
    qed
  qed
qed


lemma sendWholeLoops_never_fails:
  assumes "\<forall>n c. fst (SendMsg n c) = None"
    "sendWholeLoops SendMsg node m streamID buf c w i = Returns (err, node', cs)"
  shows "err = None"
  using assms
proof (induction SendMsg node m streamID buf c w i arbitrary: err node' cs rule: sendWholeLoops.induct)
  case (1 SendMsg node m streamID buf c w i)
  show ?case
  proof (cases "i < w")
    case False
    then show ?thesis using "1.prems"(2) by (subst (asm) sendWholeLoops.simps) simp
  next
    case True
    from "1.prems"(2) True obtain body where
      sl: "slice buf (unat (i * c)) (unat (i * c + c)) = Returns body"
      by (subst (asm) sendWholeLoops.simps) (auto split: Option.bind_splits)
    define ch where "ch = chunkMsg m (streamID @ le32 i @ body) False"
    obtain node1 where s: "SendMsg node ch = (None, node1)"
      using "1.prems"(1) by (metis fst_conv surj_pair)
    from "1.prems"(2) True sl s obtain err' node'' cs' where
      rec: "sendWholeLoops SendMsg node1 m streamID buf c w (i + 1) = Returns (err', node'', cs')"
      and e: "err = err'"
      by (subst (asm) sendWholeLoops.simps) (auto simp: ch_def split: Option.bind_splits)
    show ?thesis
      using "1.IH"[OF True sl ch_def s[symmetric] refl "1.prems"(1) rec] e by simp
  qed
qed

lemma ceil_div:
  assumes "0 < cap"
  shows "numChunks cap n = n div cap + (if n mod cap = 0 then 0 else 1)"
proof -
  define q where "q = n div cap"
  define r where "r = n mod cap"
  have n: "n = cap * q + r" by (simp add: q_def r_def)
  have r: "r < cap" using assms by (simp add: r_def)
  show ?thesis
  proof (cases "r = 0")
    case True
    have "(n + cap - 1) div cap = q"
    proof (rule div_nat_eqI)
      show "cap * q \<le> n + cap - 1" using n assms by linarith
      show "n + cap - 1 < cap * Suc q" using n True assms by (simp add: mult_Suc_right)
    qed
    then show ?thesis using True by (simp add: numChunks_def q_def r_def)
  next
    case False
    have "(n + cap - 1) div cap = Suc q"
    proof (rule div_nat_eqI)
      show "cap * Suc q \<le> n + cap - 1" using n False by (simp add: mult_Suc_right)
      show "n + cap - 1 < cap * Suc (Suc q)" using n r by (simp add: mult_Suc_right)
    qed
    then show ?thesis using False by (simp add: numChunks_def q_def r_def)
  qed
qed


lemma concat_chunkBody: "concat (map (chunkBody cap P) [0..<k]) = take (k * cap) P"
proof (induction k)
  case 0
  then show ?case by simp
next
  case (Suc k)
  have "take (k * cap) P @ take cap (drop (k * cap) P) = take (k * cap + cap) P"
    by (simp add: take_add)
  then show ?case using Suc by (simp add: chunkBody_def add.commute)
qed

lemma numChunks_covers:
  assumes "0 < cap"
  shows "n \<le> numChunks cap n * cap"
proof -
  define q where "q = n div cap"
  define r where "r = n mod cap"
  have n: "n = cap * q + r" by (simp add: q_def r_def)
  have r: "r < cap" using assms by (simp add: r_def)
  have "numChunks cap n = q + (if r = 0 then 0 else 1)"
    by (simp add: ceil_div[OF assms] q_def r_def)
  then show ?thesis
    using n r by (cases "r = 0") (simp_all add: algebra_simps)
qed

lemma chunkBody_full:
  assumes "0 < cap" "j + 1 < numChunks cap (length P)"
  shows "length (chunkBody cap P j) = cap"
proof -
  define q where "q = length P div cap"
  define r where "r = length P mod cap"
  have n: "length P = cap * q + r" by (simp add: q_def r_def)
  have "numChunks cap (length P) = q + (if r = 0 then 0 else 1)"
    by (simp add: ceil_div[OF assms(1)] q_def r_def)
  then have "Suc j \<le> q"
    using assms(2) by (auto split: if_splits)
  then have "cap * Suc j \<le> cap * q" by (rule mult_le_mono2)
  then have "j * cap + cap \<le> length P" using n by (simp add: mult.commute)
  then show ?thesis by (simp add: chunkBody_def)
qed

lemma SendChunked_sent:
  assumes S: "9 \<le> unat chunkSize" and L: "length (Content m) < 2 ^ 32"
  shows "\<exists>err node' sent.
           SendChunked SendMsg random node chunkSize m = Returns (err, node', sent) \<and>
           (err = None \<longrightarrow> sent = expectedMessages m (fst random) (payloadCapacity chunkSize)) \<and>
           (snd random = None \<and> (\<forall>n c. fst (SendMsg n c) = None) \<longrightarrow> err = None)"
proof -
  let ?P = "Content m"
  let ?c = "chunkSize - 8"
  let ?buflen = "of_nat (length ?P) :: 32 word"
  let ?w = "?buflen div ?c"
  let ?r = "?buflen mod ?c"
  let ?total = "if ?r \<noteq> 0 then ?w + 1 else ?w"
  define cap where "cap = payloadCapacity chunkSize"
  define k where "k = numChunks cap (length ?P)"
  define q where "q = length ?P div cap"
  define rr where "rr = length ?P mod cap"
  have "(8 :: 32 word) \<le> chunkSize" using S by (simp add: word_le_nat_alt)
  then have "unat ?c = unat chunkSize - unat (8 :: 32 word)" by (rule unat_sub)
  then have uc: "unat ?c = cap" by (simp add: cap_def payloadCapacity_def)
  have cap: "0 < cap" using S by (simp add: cap_def payloadCapacity_def)
  have c0: "?c \<noteq> 0" using cap uc by auto
  have bl: "unat ?buflen = length ?P" using L by (simp add: unat_of_nat)
  have n: "length ?P = cap * q + rr" by (simp add: q_def rr_def)
  have rr: "rr < cap" using cap by (simp add: rr_def)
  have uw: "unat ?w = q" by (simp only: unat_div bl uc q_def)
  have ur: "unat ?r = rr" by (simp only: unat_mod bl uc rr_def)
  have wc: "unat ?w * unat ?c \<le> length ?P" unfolding uw uc using n by (simp add: mult.commute)
  have "q * 1 \<le> q * cap" by (rule mult_le_mono2) (use cap in simp)
  then have sum: "q + rr \<le> length ?P" using n by (simp add: mult.commute)
  have "unat ?w + unat ?r < 2 ^ LENGTH(32)" unfolding uw ur using sum L by simp
  then have "unat (?w + ?r) = unat ?w + unat ?r" by (simp only: unat_add_lem)
  then have uwr: "unat (?w + ?r) = q + rr" by (simp only: uw ur)
  have kq: "k = q + (if rr = 0 then 0 else 1)"
    by (simp add: k_def ceil_div[OF cap] q_def rr_def)
  have nz: "?w + ?r \<noteq> 0 \<longleftrightarrow> ?P \<noteq> []"
  proof -
    have "?w + ?r = 0 \<longleftrightarrow> unat (?w + ?r) = 0" by (simp only: unat_0_iff)
    also have "\<dots> \<longleftrightarrow> q = 0 \<and> rr = 0" by (simp only: uwr add_is_0)
    also have "\<dots> \<longleftrightarrow> length ?P = 0" using n rr cap by auto
    finally show ?thesis by simp
  qed
  have r0: "?r = 0 \<longleftrightarrow> rr = 0" by (simp only: unat_0_iff[symmetric] ur)
  have ut: "unat ?total = k"
  proof (cases "rr = 0")
    case True
    then show ?thesis using r0 uw by (simp add: kq)
  next
    case False
    then have "unat ?w + unat (1 :: 32 word) < 2 ^ LENGTH(32)" unfolding uw using sum L by simp
    then have "unat (?w + 1) = unat ?w + unat (1 :: 32 word)" by (simp only: unat_add_lem)
    then have "unat (?w + 1) = Suc q" by (simp add: uw)
    then show ?thesis using False r0 by (simp add: kq)
  qed
  have total: "?total = of_nat k" unfolding ut[symmetric] by (simp only: of_nat_unat ucast_id)
  have wq: "?w = of_nat q" unfolding uw[symmetric] by (simp only: of_nat_unat ucast_id)
  have "unat ?w * unat ?c < 2 ^ LENGTH(32)" using wc L by simp
  then have "unat (?w * ?c) = unat ?w * unat ?c" by (simp only: unat_mult_lem)
  then have uwc: "unat (?w * ?c) = q * cap" by (simp only: uw uc)
  have last_slice: "slice_from ?P (unat (?w * ?c)) = Returns (drop (q * cap) ?P)"
    unfolding uwc using n by (simp add: slice_from_def mult.commute)
  have last_body: "drop (q * cap) ?P = chunkBody cap ?P q"
    using n rr by (simp add: chunkBody_def mult.commute)
  show ?thesis
  proof (cases "?P = []")
    case True
    then have "SendChunked SendMsg random node chunkSize m = Returns (None, node, [])"
      using c0 by (simp add: SendChunked_def)
    then show ?thesis using True by (simp add: expectedMessages_def)
  next
    case False
    then have go: "?w + ?r \<noteq> 0" using nz by simp
    obtain streamID re where rnd: "random = (streamID, re)" by (cases random)
    define hdr where "hdr = chunkMsg m (streamID @ le32 ?total) True"
    define ch where "ch = expectedChunk m streamID cap"
    have expected: "expectedMessages m streamID cap = hdr # map ch [0..<k]"
      using False by (simp only: expectedMessages_def hdr_def ch_def k_def total if_False)
    show ?thesis
    proof (cases re)
      case (Some e)
      then have "SendChunked SendMsg random node chunkSize m = Returns (Some e, node, [])"
        using c0 go rnd by (simp add: SendChunked_def Let_def)
      then show ?thesis using rnd Some by simp
    next
      case None
      note re = None
      obtain he node1 where h: "SendMsg node hdr = (he, node1)" by (cases "SendMsg node hdr")
      show ?thesis
      proof (cases he)
        case (Some e)
        then have "SendChunked SendMsg random node chunkSize m = Returns (Some e, node1, [hdr])"
          using c0 go rnd re h by (simp add: SendChunked_def Let_def hdr_def)
        moreover have "\<not> (\<forall>n c. fst (SendMsg n c) = None)"
          using h Some by (metis fst_conv option.distinct(1))
        ultimately show ?thesis by auto
      next
        case None
        note he = None
        from sendWholeLoops_sent[OF wc L, of SendMsg node1 streamID 0] obtain err2 node2 n2 where
          loop: "sendWholeLoops SendMsg node1 m streamID ?P ?c ?w 0
                   = Returns (err2, node2, map (expectedChunk m streamID (unat ?c)) [unat (0 :: 32 word)..<n2])"
          and n2: "err2 = None \<longrightarrow> n2 = max (unat (0 :: 32 word)) (unat ?w)"
          by blast
        have loop': "sendWholeLoops SendMsg node1 m streamID ?P ?c ?w 0
                   = Returns (err2, node2, map ch [0..<n2])"
          using loop by (simp add: uc ch_def)
        show ?thesis
        proof (cases err2)
          case (Some e)
          then have "SendChunked SendMsg random node chunkSize m
                       = Returns (Some e, node2, hdr # map ch [0..<n2])"
            using c0 go rnd re h he loop' by (simp add: SendChunked_def Let_def hdr_def)
          moreover have "\<not> (\<forall>n c. fst (SendMsg n c) = None)"
          proof
            assume "\<forall>n c. fst (SendMsg n c) = None"
            then have "err2 = None" using loop' by (rule sendWholeLoops_never_fails)
            then show False using Some by simp
          qed
          ultimately show ?thesis by auto
        next
          case None
          then have n2q: "n2 = q" using n2 uw by simp
          show ?thesis
          proof (cases "rr = 0")
            case True
            then have "?r = 0" using r0 by simp
            then have "SendChunked SendMsg random node chunkSize m
                         = Returns (None, node2, hdr # map ch [0..<q])"
              using c0 go rnd re h he loop' None n2q by (simp add: SendChunked_def Let_def hdr_def)
            moreover have "k = q" using True kq by simp
            ultimately show ?thesis using expected rnd by (simp add: cap_def)
          next
            case False
            then have rpos: "0 < ?r" using r0 by (simp add: word_gt_0)
            have lastc: "chunkMsg m (streamID @ le32 ?w @ drop (q * cap) ?P) False = ch q"
              by (simp only: ch_def expectedChunk_def wq[symmetric] last_body)
            obtain le node3 where l: "SendMsg node2 (ch q) = (le, node3)"
              by (cases "SendMsg node2 (ch q)")
            have "SendChunked SendMsg random node chunkSize m
                         = Returns (le, node3, hdr # map ch [0..<q] @ [ch q])"
              using c0 go rnd re h he loop' None n2q rpos last_slice lastc l
              by (simp add: SendChunked_def Let_def hdr_def)
            moreover have "k = Suc q" using False kq by simp
            moreover have "le = fst (SendMsg node2 (ch q))" using l by simp
            ultimately show ?thesis using expected rnd by (auto simp: cap_def)
          qed
        qed
      qed
    qed
  qed
qed


lemma unat_byte_of: "unat (ucast (drop_bit k (w :: 32 word)) :: byte) = unat w div 2 ^ k mod 256"
proof -
  have "unat (drop_bit k w) = drop_bit k (unat w)" by (rule unat_drop_bit_eq)
  then have "unat (drop_bit k w) = unat w div 2 ^ k" by (simp only: drop_bit_eq_div)
  moreover have "unat (ucast (drop_bit k w) :: byte) = unat (drop_bit k w) mod 256"
    by (simp add: unsigned_ucast_eq take_bit_eq_mod)
  ultimately show ?thesis by (simp only:)
qed

lemma unat_byte0: "unat (ucast (w :: 32 word) :: byte) = unat w mod 256"
  by (simp add: unsigned_ucast_eq take_bit_eq_mod)

lemma split4:
  assumes "(n :: nat) < 4294967296"
  shows "n mod 256 + 256 * (n div 256 mod 256) + 65536 * (n div 65536 mod 256)
           + 16777216 * (n div 16777216 mod 256) = n"
proof -
  have a: "n div 16777216 mod 256 = n div 16777216" using assms by simp
  have b: "n div 65536 = 256 * (n div 16777216) + n div 65536 mod 256"
    using div_mult2_eq[of n 65536 256] by (simp add: mult_div_mod_eq)
  have c: "n div 256 = 256 * (n div 65536) + n div 256 mod 256"
    using div_mult2_eq[of n 256 256] by (simp add: mult_div_mod_eq)
  have d: "n = 256 * (n div 256) + n mod 256" by simp
  show ?thesis using a b c d by linarith
qed

lemma le32_read_le32: "le32_read (le32 w) = unat w"
proof -
  have "unat w < 4294967296" using unsigned_less[of w] by simp
  from split4[OF this] show ?thesis
    using unat_byte_of[of 8 w] unat_byte_of[of 16 w] unat_byte_of[of 24 w]
    by (simp add: le32_read_def le32_def unat_byte0)
qed

lemma numChunks_le: "0 < cap \<Longrightarrow> numChunks cap n \<le> n"
proof -
  assume c: "0 < cap"
  define q where "q = n div cap"
  define r where "r = n mod cap"
  have n: "n = cap * q + r" by (simp add: q_def r_def)
  have a: "q \<le> cap * q" using c by (cases cap) simp_all
  have b: "(if r = 0 then 0 else 1) \<le> r" by simp
  from a b have "q + (if r = 0 then 0 else 1) \<le> cap * q + r" by (rule add_mono)
  then have "q + (if r = 0 then 0 else 1) \<le> n" using n by simp
  then show ?thesis by (simp add: ceil_div[OF c] q_def r_def)
qed

text \<open>
  C3, as the code has it: for every payload \<open>P\<close> shorter than \<open>2^32\<close> bytes and every
  \<open>chunkSize\<close> of at least 9, \<open>SendChunked\<close> returns (it does not panic); whenever it
  returns nil, which it does when the stream ID is made and \<open>SendMsg\<close> never fails, the
  messages handed to \<open>SendMsg\<close> are: nothing for an empty \<open>P\<close>; else one stream header
  whose number of chunks is \<open>ceil(len(P) / (chunkSize - 8))\<close>, followed by the chunks
  numbered from 0 (these numbers all fit their fields and read back as they are),
  whose bodies concatenated in order are \<open>P\<close>, each body but possibly the last of
  exactly \<open>chunkSize - 8\<close> bytes.
\<close>

theorem SendChunked_chunks:
  assumes "9 \<le> unat chunkSize" "length (Content m) < 2 ^ 32"
  shows "(\<exists>err node' sent.
            SendChunked SendMsg random node chunkSize m = Returns (err, node', sent) \<and>
            (err = None \<longrightarrow> sent = expectedMessages m (fst random) (payloadCapacity chunkSize)) \<and>
            (snd random = None \<and> (\<forall>n c. fst (SendMsg n c) = None) \<longrightarrow> err = None)) \<and>
         (\<forall>j. j \<le> numChunks (payloadCapacity chunkSize) (length (Content m)) \<longrightarrow>
              le32_read (le32 (of_nat j)) = j) \<and>
         concat (map (chunkBody (payloadCapacity chunkSize) (Content m))
                   [0..<numChunks (payloadCapacity chunkSize) (length (Content m))]) = Content m \<and>
         (\<forall>j. j + 1 < numChunks (payloadCapacity chunkSize) (length (Content m)) \<longrightarrow>
              length (chunkBody (payloadCapacity chunkSize) (Content m) j) = payloadCapacity chunkSize)"
proof -
  have cap: "0 < payloadCapacity chunkSize"
    using assms(1) by (simp add: payloadCapacity_def)
  have "numChunks (payloadCapacity chunkSize) (length (Content m)) < 2 ^ 32"
    using numChunks_le[OF cap, of "length (Content m)"] assms(2) by simp
  then have 2: "\<forall>j. j \<le> numChunks (payloadCapacity chunkSize) (length (Content m)) \<longrightarrow>
              le32_read (le32 (of_nat j)) = j"
    by (simp add: le32_read_le32 unat_of_nat)
  have 3: "concat (map (chunkBody (payloadCapacity chunkSize) (Content m))
                   [0..<numChunks (payloadCapacity chunkSize) (length (Content m))]) = Content m"
    using numChunks_covers[OF cap, of "length (Content m)"] by (simp add: concat_chunkBody)
  show ?thesis
    using SendChunked_sent[OF assms, of SendMsg random node] 2 3 chunkBody_full[OF cap]
    by blast
qed

theorem SendChunked_chunks_witness:
  "9 \<le> unat (12 :: 32 word) \<and> length (Content smallMsg) < 2 ^ 32 \<and>
   map_option (\<lambda>(err, node', sent). (err, sent))
     (SendChunked countingSendMsg ([9, 9, 9, 9], None) 0 12 smallMsg)
     = Returns (None, expectedMessages smallMsg [9, 9, 9, 9] (payloadCapacity 12)) \<and>
   expectedMessages smallMsg [9, 9, 9, 9] (payloadCapacity 12)
     = [chunkMsg smallMsg [9, 9, 9, 9, 3, 0, 0, 0] True,
        chunkMsg smallMsg [9, 9, 9, 9, 0, 0, 0, 0, 1, 2, 3, 4] False,
        chunkMsg smallMsg [9, 9, 9, 9, 1, 0, 0, 0, 5, 6, 7, 8] False,
        chunkMsg smallMsg [9, 9, 9, 9, 2, 0, 0, 0, 9, 10] False] \<and>
   (0 :: nat) + 1 < numChunks (payloadCapacity 12) (length (Content smallMsg)) \<and>
   length (chunkBody (payloadCapacity 12) (Content smallMsg) 0) = payloadCapacity 12 \<and>
   (3 :: nat) \<le> numChunks (payloadCapacity 12) (length (Content smallMsg)) \<and>
   le32_read (le32 (of_nat 3)) = 3"
proof -
  have h: "9 \<le> unat (12 :: 32 word)" "length (Content smallMsg) < 2 ^ 32"
    by (simp_all add: smallMsg_def)
  have ok: "\<forall>n c. fst (countingSendMsg n c) = None"
    by (simp add: countingSendMsg_def)
  have up3: "[0..<3] = [0, 1, 2 :: nat]"
    by (simp add: numeral_3_eq_3)
  have k: "numChunks (payloadCapacity 12) (length (Content smallMsg)) = 3"
    by (simp add: numChunks_def payloadCapacity_def smallMsg_def)
  have e: "expectedMessages smallMsg [9, 9, 9, 9] (payloadCapacity 12)
     = [chunkMsg smallMsg [9, 9, 9, 9, 3, 0, 0, 0] True,
        chunkMsg smallMsg [9, 9, 9, 9, 0, 0, 0, 0, 1, 2, 3, 4] False,
        chunkMsg smallMsg [9, 9, 9, 9, 1, 0, 0, 0, 5, 6, 7, 8] False,
        chunkMsg smallMsg [9, 9, 9, 9, 2, 0, 0, 0, 9, 10] False]"
    unfolding expectedMessages_def k
    by (simp add: expectedChunk_def chunkBody_def le32_def payloadCapacity_def smallMsg_def up3)
  from SendChunked_chunks[OF h, of countingSendMsg "([9, 9, 9, 9], None)" 0] ok
  have "map_option (\<lambda>(err, node', sent). (err, sent))
     (SendChunked countingSendMsg ([9, 9, 9, 9], None) 0 12 smallMsg)
     = Returns (None, expectedMessages smallMsg [9, 9, 9, 9] (payloadCapacity 12))"
    and "length (chunkBody (payloadCapacity 12) (Content smallMsg) 0) = payloadCapacity 12"
    and "le32_read (le32 (of_nat 3)) = 3"
    using k by auto
  then show ?thesis using h e k by simp
qed

text \<open>
  C3 as stated fails for a payload of \<open>2^32\<close> bytes: \<open>uint32(len(buf))\<close> is 0, so
  nothing is emitted although the payload is not empty.
\<close>

theorem SendChunked_chunks_counterexample:
  "Content hugeMsg \<noteq> [] \<and>
   SendChunked countingSendMsg ([9, 9, 9, 9], None) 0 12 hugeMsg = Returns (None, 0, [])"
  by (simp add: hugeMsg_def SendChunked_def)

end
